theory Spec2Isabelle
  imports Complex_Main
begin

section \<open>Velocity-tree construction (dynamo/tools/construct\_velocity\_tree.py)\<close>

text \<open>
  The arrays of the source are numpy arrays of double-precision floats. A finite float is
  modelled by the real number it denotes, and an operation on finite floats by the exact
  operation on the reals: the double the source holds is that real number rounded, so a
  statement about an exact value (a quotient, a sum) describes the source up to rounding.
  The three non-finite floats are values of their own, because the source produces them
  (division by a zero total, logarithm of zero) and filters them out again.
  A two-dimensional array that is only indexed is the list of its rows.
\<close>

datatype error = IndexError | ValueError | TypeError | UnboundLocalError

datatype npfloat = Fin real | PInf | NInf | NaN

type_synonym matrix = "real list list"

fun bind_err :: "error + 'a \<Rightarrow> ('a \<Rightarrow> error + 'b) \<Rightarrow> error + 'b" where
  "bind_err (Inl e) f = Inl e"
| "bind_err (Inr x) f = f x"

text \<open>Evaluating a list of fallible expressions from left to right: the first raise wins.\<close>

fun collect :: "(error + 'a) list \<Rightarrow> error + 'a list" where
  "collect [] = Inr []"
| "collect (m # ms) = bind_err m (\<lambda>x. bind_err (collect ms) (\<lambda>xs. Inr (x # xs)))"

text \<open>\<open>xs[i]\<close> and \<open>A[i, j]\<close> with a non-negative index: out of range raises IndexError.\<close>

definition get1 :: "'a list \<Rightarrow> nat \<Rightarrow> error + 'a" where
  "get1 xs i = (if i < length xs then Inr (xs ! i) else Inl IndexError)"

definition get2 :: "'a list list \<Rightarrow> nat \<Rightarrow> nat \<Rightarrow> error + 'a" where
  "get2 A i j = (if i < length A \<and> j < length (A ! i) then Inr (A ! i ! j) else Inl IndexError)"

definition set2 :: "'a list list \<Rightarrow> nat \<Rightarrow> nat \<Rightarrow> 'a \<Rightarrow> error + 'a list list" where
  "set2 A i j v =
     (if i < length A \<and> j < length (A ! i) then Inr (A[i := (A ! i)[j := v]]) else Inl IndexError)"

subsection \<open>Float operations of numpy that the source relies on\<close>

definition is_finite :: "npfloat \<Rightarrow> bool" where
  "is_finite x = (case x of Fin _ \<Rightarrow> True | _ \<Rightarrow> False)"

text \<open>The largest finite double, which \<open>np.nan_to_num\<close> puts in place of an infinity.\<close>

definition float_max :: real where
  "float_max = (2 - 1 / 2 ^ 52) * 2 ^ 1023"

fun np_neg :: "npfloat \<Rightarrow> npfloat" where
  "np_neg (Fin a) = Fin (- a)"
| "np_neg PInf = NInf"
| "np_neg NInf = PInf"
| "np_neg NaN = NaN"

fun np_add :: "npfloat \<Rightarrow> npfloat \<Rightarrow> npfloat" where
  "np_add (Fin a) (Fin b) = Fin (a + b)"
| "np_add NaN _ = NaN"
| "np_add _ NaN = NaN"
| "np_add PInf NInf = NaN"
| "np_add NInf PInf = NaN"
| "np_add PInf _ = PInf"
| "np_add _ PInf = PInf"
| "np_add NInf _ = NInf"
| "np_add _ NInf = NInf"

definition np_sub :: "npfloat \<Rightarrow> npfloat \<Rightarrow> npfloat" where
  "np_sub x y = np_add x (np_neg y)"

text \<open>
  \<open>a / b\<close> on finite floats under \<open>np.errstate(divide='ignore', invalid='ignore')\<close>:
  a zero divisor gives an infinity of the sign of \<open>a\<close>, and \<open>0 / 0\<close> gives NaN. For a
  non-zero divisor the value is the exact quotient; the source holds its rounding to a
  double.
\<close>

definition true_divide :: "real \<Rightarrow> real \<Rightarrow> npfloat" where
  "true_divide a b =
     (if b \<noteq> 0 then Fin (a / b)
      else if 0 < a then PInf
      else if a < 0 then NInf
      else NaN)"

text \<open>\<open>np.log\<close>: minus infinity at zero, NaN below zero and at minus infinity.\<close>

fun np_log :: "npfloat \<Rightarrow> npfloat" where
  "np_log (Fin a) = (if 0 < a then Fin (ln a) else if a = 0 then NInf else NaN)"
| "np_log PInf = PInf"
| "np_log NInf = NaN"
| "np_log NaN = NaN"

text \<open>\<open>A[A == np.inf] = 0\<close> and \<open>A[A == -np.inf] = 0\<close>, entry by entry.\<close>

definition mask_pinf :: "npfloat \<Rightarrow> npfloat" where
  "mask_pinf x = (if x = PInf then Fin 0 else x)"

definition mask_ninf :: "npfloat \<Rightarrow> npfloat" where
  "mask_ninf x = (if x = NInf then Fin 0 else x)"

text \<open>\<open>np.nan_to_num\<close> with its defaults: NaN to 0, the infinities to the largest floats.\<close>

fun nan_to_num :: "npfloat \<Rightarrow> npfloat" where
  "nan_to_num (Fin a) = Fin a"
| "nan_to_num NaN = Fin 0"
| "nan_to_num PInf = Fin float_max"
| "nan_to_num NInf = Fin (- float_max)"

text \<open>\<open>x >= y\<close> on floats: every comparison with NaN is false.\<close>

fun np_ge :: "npfloat \<Rightarrow> npfloat \<Rightarrow> bool" where
  "np_ge NaN _ = False"
| "np_ge _ NaN = False"
| "np_ge (Fin a) (Fin b) = (b \<le> a)"
| "np_ge PInf _ = True"
| "np_ge _ NInf = True"
| "np_ge _ PInf = False"
| "np_ge NInf _ = False"

subsection \<open>Cluster Transition Aggregator: \<open>_compute_transition_matrix\<close>\<close>

text \<open>
  The assignment matrix \<open>R\<close> is a cells by clusters array. Its number of columns is part
  of the array and does not depend on there being a row, so the array is its shape along
  axis 1 together with its rows.
\<close>

record array2d =
  ncols :: nat
  rows :: matrix

text \<open>
  \<open>np.max(R, axis=1)\<close> and \<open>np.argmax(R, axis=1)\<close>. A reduction over an axis of length
  0 has no identity and raises a ValueError; over an array without rows the result is
  empty. The argmax is the first index of the maximum.
\<close>

fun list_max :: "real list \<Rightarrow> real" where
  "list_max [] = 0"
| "list_max (x # xs) = fold max xs x"

fun index_of :: "'a \<Rightarrow> 'a list \<Rightarrow> nat" where
  "index_of x [] = 0"
| "index_of x (y # ys) = (if x = y then 0 else Suc (index_of x ys))"

definition np_max_axis1 :: "array2d \<Rightarrow> error + real list" where
  "np_max_axis1 R = (if ncols R = 0 then Inl ValueError else Inr (map list_max (rows R)))"

definition np_argmax_axis1 :: "array2d \<Rightarrow> error + nat list" where
  "np_argmax_axis1 R =
     (if ncols R = 0 then Inl ValueError
      else Inr (map (\<lambda>r. index_of (list_max r) r) (rows R)))"

text \<open>\<open>R.shape[1]\<close>, the number of clusters.\<close>

definition shape1 :: "array2d \<Rightarrow> nat" where
  "shape1 R = ncols R"

text \<open>\<open>clusters[i] = np.where(assignment == i)[0]\<close>\<close>

definition clusters :: "nat list \<Rightarrow> nat \<Rightarrow> nat list" where
  "clusters assignment i = filter (\<lambda>c. assignment ! c = i) [0..<length assignment]"

text \<open>
  The sum \<open>q\<close> of one cluster pair: the list comprehension runs over the cells of
  cluster \<open>a\<close> and, inside, over the cells of cluster \<open>b\<close>.
\<close>

definition cluster_q :: "matrix \<Rightarrow> real list \<Rightarrow> nat list \<Rightarrow> nat list \<Rightarrow> error + real" where
  "cluster_q T hp ca cb =
     bind_err
       (collect (concat (map (\<lambda>i. map (\<lambda>j. bind_err (get2 T i j) (\<lambda>t. Inr (hp ! i * hp ! j * t))) cb) ca)))
       (\<lambda>qs. Inr (sum_list qs))"

text \<open>
  The two nested loops \<open>for a in range(k): for b in range(a, k)\<close> over the state
  \<open>(totals, transition)\<close>.
\<close>

fun inner_loop ::
  "matrix \<Rightarrow> real list \<Rightarrow> (nat \<Rightarrow> nat list) \<Rightarrow> nat \<Rightarrow> nat list \<Rightarrow> real list \<times> matrix
     \<Rightarrow> error + real list \<times> matrix" where
  "inner_loop T hp cl a [] st = Inr st"
| "inner_loop T hp cl a (b # bs) st =
     bind_err (cluster_q T hp (cl a) (cl b))
       (\<lambda>q. inner_loop T hp cl a bs
               ((fst st)[a := fst st ! a + q], (snd st)[a := (snd st ! a)[b := q]]))"

fun outer_loop ::
  "matrix \<Rightarrow> real list \<Rightarrow> (nat \<Rightarrow> nat list) \<Rightarrow> nat \<Rightarrow> nat list \<Rightarrow> real list \<times> matrix
     \<Rightarrow> error + real list \<times> matrix" where
  "outer_loop T hp cl k [] st = Inr st"
| "outer_loop T hp cl k (a # as) st =
     bind_err (inner_loop T hp cl a [a..<k] st) (outer_loop T hp cl k as)"

text \<open>Lines 72 to 87: the totals and the upper-triangular matrix of sums.\<close>

definition accumulate :: "matrix \<Rightarrow> array2d \<Rightarrow> error + real list \<times> matrix" where
  "accumulate T R =
     bind_err (np_max_axis1 R) (\<lambda>highest_probability.
     bind_err (np_argmax_axis1 R) (\<lambda>assignment.
       let k = shape1 R in
       outer_loop T highest_probability (clusters assignment) k [0..<k]
         (replicate k 0, replicate k (replicate k 0))))"

text \<open>
  Lines 88 to 92: \<open>res = transition / totals\<close> divides row \<open>a\<close> by \<open>totals[a]\<close>; then
  plus infinity is set to 0 and \<open>nan_to_num\<close> is applied.
\<close>

definition normalise :: "real list \<Rightarrow> matrix \<Rightarrow> npfloat list list" where
  "normalise totals transition =
     map (\<lambda>a. map (\<lambda>q. nan_to_num (mask_pinf (true_divide q (totals ! a)))) (transition ! a))
       [0..<length transition]"

text \<open>Line 93: \<open>res + res.T - np.diag(res.diagonal())\<close>\<close>

definition symmetrise :: "npfloat list list \<Rightarrow> npfloat list list" where
  "symmetrise res =
     map (\<lambda>a. map (\<lambda>b. np_sub (np_add (res ! a ! b) (res ! b ! a))
                               (if a = b then res ! a ! a else Fin 0))
                  [0..<length res])
       [0..<length res]"

definition compute_transition_matrix :: "matrix \<Rightarrow> array2d \<Rightarrow> error + npfloat list list" where
  "compute_transition_matrix transition_matrix R =
     bind_err (accumulate transition_matrix R)
       (\<lambda>st. Inr (symmetrise (normalise (fst st) (snd st))))"

text \<open>
  The same quantities without the error plumbing, for stating properties: the sum of one
  cluster pair, the cluster of each cell, and \<open>q(a, b)\<close> as a function of the inputs.
\<close>

definition pair_sum :: "matrix \<Rightarrow> real list \<Rightarrow> nat list \<Rightarrow> nat list \<Rightarrow> real" where
  "pair_sum T hp ca cb =
     sum_list (concat (map (\<lambda>i. map (\<lambda>j. hp ! i * hp ! j * T ! i ! j) cb) ca))"

definition assignment_of :: "array2d \<Rightarrow> nat list" where
  "assignment_of R = map (\<lambda>r. index_of (list_max r) r) (rows R)"

definition q_of :: "matrix \<Rightarrow> array2d \<Rightarrow> nat \<Rightarrow> nat \<Rightarrow> real" where
  "q_of T R a b =
     pair_sum T (map list_max (rows R)) (clusters (assignment_of R) a)
       (clusters (assignment_of R) b)"

text \<open>
  The inputs the aggregator is meant for: \<open>R\<close> is a cells by clusters array with at
  least one cluster, every row as long as the array is wide, and the transition matrix has
  an entry for every pair of cells.
\<close>

definition well_shaped :: "matrix \<Rightarrow> array2d \<Rightarrow> bool" where
  "well_shaped T R =
     (0 < shape1 R \<and> list_all (\<lambda>r. length r = shape1 R) (rows R) \<and>
      length (rows R) \<le> length T \<and> list_all (\<lambda>row. length (rows R) \<le> length row) T)"

definition nonneg :: "matrix \<Rightarrow> bool" where
  "nonneg A = list_all (list_all (\<lambda>x. 0 \<le> x)) A"

subsection \<open>Segment Likelihood Evaluator: \<open>_calculate_segment_probability\<close>\<close>

text \<open>Lines 98 to 101: the element-wise logarithm with the non-finite entries replaced.\<close>

definition clean_log :: "npfloat \<Rightarrow> npfloat" where
  "clean_log x = nan_to_num (mask_ninf (mask_pinf (np_log x)))"

definition log_matrix :: "npfloat list list \<Rightarrow> npfloat list list" where
  "log_matrix C = map (map clean_log) C"

text \<open>Lines 103 and 104: the loop \<open>for i in range(2, len(orders))\<close>.\<close>

fun segment_loop ::
  "npfloat list list \<Rightarrow> nat list \<Rightarrow> nat list \<Rightarrow> npfloat list \<Rightarrow> error + npfloat list" where
  "segment_loop L orders [] probability = Inr probability"
| "segment_loop L orders (i # is) probability =
     bind_err (get1 probability (i - 2)) (\<lambda>prev.
     bind_err (get1 orders (i - 1)) (\<lambda>r.
     bind_err (get1 orders i) (\<lambda>c.
     bind_err (get2 L r c) (\<lambda>l.
       segment_loop L orders is (probability @ [np_add prev l])))))"

definition calculate_segment_probability ::
  "npfloat list list \<Rightarrow> nat list \<Rightarrow> error + npfloat list" where
  "calculate_segment_probability center_transition_matrix orders =
     (let L = log_matrix center_transition_matrix in
      bind_err (get1 orders 0) (\<lambda>o0.
      bind_err (get1 orders 1) (\<lambda>o1.
      bind_err (get2 L o0 o1) (\<lambda>l.
        segment_loop L orders [2..<length orders] [l]))))"

subsection \<open>Cluster Tree Orienter: \<open>construct_velocity_tree\<close>\<close>

text \<open>
  Lines 117 to 127, the loop \<open>for i in range(1, len(orders))\<close> over the tree. The
  right-hand side \<open>max(tree[r, c], tree[c, r])\<close> is read before either entry is written.
\<close>

fun orient_loop ::
  "matrix \<Rightarrow> nat list \<Rightarrow> npfloat list \<Rightarrow> npfloat list \<Rightarrow> nat list \<Rightarrow> error + matrix" where
  "orient_loop tree orders p p_rev [] = Inr tree"
| "orient_loop tree orders p p_rev (i # is) =
     bind_err (get1 orders (i - 1)) (\<lambda>r.
     bind_err (get1 orders i) (\<lambda>c.
     bind_err (get1 p (i - 1)) (\<lambda>fwd.
     bind_err (get1 p_rev (i - 1)) (\<lambda>bwd.
       if np_ge fwd bwd then
         bind_err (get2 tree r c) (\<lambda>x.
         bind_err (get2 tree c r) (\<lambda>y.
         bind_err (set2 tree r c (max x y)) (\<lambda>t1.
         bind_err (set2 t1 c r 0) (\<lambda>t2. orient_loop t2 orders p p_rev is))))
       else
         bind_err (get2 tree r c) (\<lambda>x.
         bind_err (get2 tree c r) (\<lambda>y.
         bind_err (set2 tree c r (max x y)) (\<lambda>t1.
         bind_err (set2 t1 r c 0) (\<lambda>t2. orient_loop t2 orders p p_rev is))))))))"

text \<open>
  Lines 109 to 127. The four values read from \<open>adata\<close> are the inputs; \<open>orders\<close> is the
  array that \<open>np.argsort\<close> returns for the stored order of the centers (line 111), taken
  as it is.
\<close>

definition construct_velocity_tree ::
  "matrix \<Rightarrow> array2d \<Rightarrow> nat list \<Rightarrow> matrix \<Rightarrow> error + matrix" where
  "construct_velocity_tree transition_matrix R orders velocity_tree =
     bind_err (compute_transition_matrix transition_matrix R) (\<lambda>center_transition_matrix.
     bind_err (calculate_segment_probability center_transition_matrix orders) (\<lambda>segment_p.
     bind_err (calculate_segment_probability center_transition_matrix (rev orders))
       (\<lambda>segment_p_reversed.
         orient_loop velocity_tree orders segment_p segment_p_reversed [1..<length orders])))"

subsection \<open>Per-Cell Graph Contractor: \<open>remove_velocity_points\<close>\<close>

text \<open>Lines 23 to 26: the neighbours of \<open>nodeid\<close>, in increasing order.\<close>

definition nb_ids_of :: "matrix \<Rightarrow> nat \<Rightarrow> nat \<Rightarrow> error + nat list" where
  "nb_ids_of G nodeid w =
     bind_err (collect (map (\<lambda>nb_id. get2 G nodeid nb_id) [0..<w]))
       (\<lambda>row. Inr (filter (\<lambda>nb_id. row ! nb_id \<noteq> 0) [0..<w]))"

text \<open>
  Lines 33 to 38: the smallest non-zero weight and the first index that has it.
  \<open>min_val\<close> starts at infinity (None); \<open>min_ind\<close> is unbound (None) until a weight is found.
\<close>

fun min_search ::
  "matrix \<Rightarrow> nat \<Rightarrow> nat list \<Rightarrow> real option \<times> nat option \<Rightarrow> error + real option \<times> nat option" where
  "min_search G nodeid [] st = Inr st"
| "min_search G nodeid (i # is) st =
     bind_err (get2 G nodeid i) (\<lambda>g.
       min_search G nodeid is
         (if g \<noteq> 0 \<and> (case fst st of None \<Rightarrow> True | Some m \<Rightarrow> g < m) then (Some g, Some i) else st))"

text \<open>Lines 39 to 43: every other neighbour is joined to the neighbour of least weight.\<close>

fun merge_loop :: "matrix \<Rightarrow> nat \<Rightarrow> real \<Rightarrow> nat \<Rightarrow> nat list \<Rightarrow> error + matrix" where
  "merge_loop G nodeid min_val min_ind [] = Inr G"
| "merge_loop G nodeid min_val min_ind (i # is) =
     (if i \<noteq> min_ind then
        bind_err (get2 G nodeid i) (\<lambda>g.
          let new_weight = g + min_val in
          bind_err (set2 G i min_ind new_weight) (\<lambda>G1.
          bind_err (set2 G1 min_ind i new_weight) (\<lambda>G2.
            merge_loop G2 nodeid min_val min_ind is)))
      else merge_loop G nodeid min_val min_ind is)"

text \<open>
  The body of the loop over the duplicate nodes. In the second branch only the edge to
  \<open>nb_ids[0]\<close> is cleared (lines 45 and 46), and \<open>nb_ids[0]\<close> raises when there is no
  neighbour.
\<close>

definition contract_node :: "matrix \<Rightarrow> nat \<Rightarrow> error + matrix" where
  "contract_node G nodeid =
     bind_err (get1 G 0) (\<lambda>row0.
       let w = length row0 in
       bind_err (nb_ids_of G nodeid w) (\<lambda>nb_ids.
         if length nb_ids = 1 then
           bind_err (set2 G nodeid (nb_ids ! 0) 0) (\<lambda>G1. set2 G1 (nb_ids ! 0) nodeid 0)
         else
           bind_err (min_search G nodeid [0..<w] (None, None)) (\<lambda>found.
           bind_err (case found of
                       (Some min_val, Some min_ind) \<Rightarrow> merge_loop G nodeid min_val min_ind nb_ids
                     | _ \<Rightarrow> if nb_ids = [] then Inr G else Inl UnboundLocalError) (\<lambda>G1.
           bind_err (get1 nb_ids 0) (\<lambda>nb.
           bind_err (set2 G1 nodeid nb 0) (\<lambda>G2. set2 G2 nb nodeid 0))))))"

fun node_loop :: "matrix \<Rightarrow> nat list \<Rightarrow> error + matrix" where
  "node_loop G [] = Inr G"
| "node_loop G (nodeid # rest) = bind_err (contract_node G nodeid) (\<lambda>G1. node_loop G1 rest)"

definition remove_velocity_points :: "matrix \<Rightarrow> nat \<Rightarrow> error + matrix" where
  "remove_velocity_points G n = node_loop G [n..<2 * n]"

subsection \<open>Angle between two embedded vectors: \<open>calculate_angle\<close>\<close>

text \<open>
  The points are one-dimensional arrays (columns \<open>Z[:, i]\<close> of the embedding). An
  element-wise operation on two arrays needs equal lengths, or one array of length 1 that
  is repeated; anything else raises a ValueError.
\<close>

definition broadcast2 :: "('a \<Rightarrow> 'b \<Rightarrow> 'c) \<Rightarrow> 'a list \<Rightarrow> 'b list \<Rightarrow> error + 'c list" where
  "broadcast2 f xs ys =
     (if length xs = length ys then Inr (map2 f xs ys)
      else if length xs = 1 then Inr (map (f (hd xs)) ys)
      else if length ys = 1 then Inr (map (\<lambda>x. f x (hd ys)) xs)
      else Inl ValueError)"

text \<open>\<open>scipy.linalg.norm\<close> of a vector: the Euclidean norm.\<close>

definition linalg_norm :: "real list \<Rightarrow> real" where
  "linalg_norm v = sqrt (sum_list (map (\<lambda>c. c * c) v))"

fun np_mul :: "npfloat \<Rightarrow> npfloat \<Rightarrow> npfloat" where
  "np_mul (Fin a) (Fin b) = Fin (a * b)"
| "np_mul NaN _ = NaN"
| "np_mul _ NaN = NaN"
| "np_mul PInf (Fin b) = (if b = 0 then NaN else if 0 < b then PInf else NInf)"
| "np_mul NInf (Fin b) = (if b = 0 then NaN else if 0 < b then NInf else PInf)"
| "np_mul (Fin a) PInf = (if a = 0 then NaN else if 0 < a then PInf else NInf)"
| "np_mul (Fin a) NInf = (if a = 0 then NaN else if 0 < a then NInf else PInf)"
| "np_mul PInf PInf = PInf"
| "np_mul PInf NInf = NInf"
| "np_mul NInf PInf = NInf"
| "np_mul NInf NInf = PInf"

text \<open>\<open>np.arccos\<close>: NaN outside the interval from -1 to 1.\<close>

fun np_arccos :: "npfloat \<Rightarrow> npfloat" where
  "np_arccos (Fin a) = (if - 1 \<le> a \<and> a \<le> 1 then Fin (arccos a) else NaN)"
| "np_arccos _ = NaN"

text \<open>
  Lines 63 to 68. The transpose of a one-dimensional array is the array itself, and
  \<open>*\<close> is the element-wise product.
\<close>

definition calculate_angle :: "real list \<Rightarrow> real list \<Rightarrow> real list \<Rightarrow> error + npfloat list" where
  "calculate_angle origin y x =
     bind_err (broadcast2 (\<lambda>a b. a - b) y origin) (\<lambda>yo.
       let norm_yo = map (\<lambda>c. true_divide c (linalg_norm yo)) yo in
       bind_err (broadcast2 (\<lambda>a b. a - b) x origin) (\<lambda>xo.
         let norm_xo = map (\<lambda>c. true_divide c (linalg_norm xo)) xo in
         bind_err (broadcast2 np_mul norm_yo norm_xo) (\<lambda>prod. Inr (map np_arccos prod))))"

subsection \<open>Branch Direction Voter: lines 189 to 271 of \<open>construct_velocity_tree_py\<close>\<close>

text \<open>
  A branch \<open>path\<close> is a list of node indices, one element of \<open>branch_cell\<close>. The source
  reads it both by subscript (\<open>path[bp + 1]\<close>) and by call (\<open>path(bp)\<close>); calling a list
  raises a TypeError.

  Lines 192 to 246, the vote loop \<open>for bp in range(len(path))\<close>: its first statement is
  \<open>u = path(bp)\<close>, so the first iteration raises and the rest of the body is not reached.
\<close>

fun vote_loop :: "nat list \<Rightarrow> nat list \<Rightarrow> int \<Rightarrow> error + int" where
  "vote_loop path [] pos_direct = Inr pos_direct"
| "vote_loop path (bp # bps) pos_direct = Inl TypeError"

definition count_votes :: "nat list \<Rightarrow> error + int" where
  "count_votes path = vote_loop path [0..<length path] 0"

text \<open>Line 248.\<close>

definition neg_direct_of :: "nat list \<Rightarrow> int \<Rightarrow> int" where
  "neg_direct_of path pos_direct = int (length path) - pos_direct"

text \<open>
  Lines 249 to 261, the report of the branch: \<open>path[0]\<close> raises an IndexError on an
  empty branch, and otherwise the concatenation of a string with a number (a node index,
  or \<open>pos_direct\<close>) raises a TypeError.
\<close>

definition report_branch :: "nat list \<Rightarrow> int \<Rightarrow> int \<Rightarrow> error + unit" where
  "report_branch path pos_direct neg_direct = (if path = [] then Inl IndexError else Inl TypeError)"

text \<open>
  Lines 265 to 271. The forward edges are written by subscript; the reversed edges are
  addressed by \<open>path(bp + 1)\<close> and \<open>path(bp)\<close>, which raises as soon as that loop has
  an iteration.
\<close>

fun forward_edges :: "matrix \<Rightarrow> nat list \<Rightarrow> nat list \<Rightarrow> error + matrix" where
  "forward_edges dG path [] = Inr dG"
| "forward_edges dG path (bp # bps) =
     bind_err (get1 path bp) (\<lambda>u.
     bind_err (get1 path (bp + 1)) (\<lambda>w.
     bind_err (set2 dG u w 1) (\<lambda>dG1. forward_edges dG1 path bps)))"

fun reverse_edges :: "matrix \<Rightarrow> nat list \<Rightarrow> nat list \<Rightarrow> error + matrix" where
  "reverse_edges dG path [] = Inr dG"
| "reverse_edges dG path (bp # bps) = Inl TypeError"

definition orient_branch :: "matrix \<Rightarrow> nat list \<Rightarrow> int \<Rightarrow> int \<Rightarrow> error + matrix" where
  "orient_branch dG path pos_direct neg_direct =
     (if pos_direct > neg_direct then forward_edges dG path [0..<length path - 1]
      else reverse_edges dG path [0..<length path - 1])"

text \<open>The body of the loop over the branches, and the loop (lines 189 to 271).\<close>

definition process_branch :: "matrix \<Rightarrow> nat list \<Rightarrow> error + matrix" where
  "process_branch dG path =
     bind_err (count_votes path) (\<lambda>pos_direct.
       let neg_direct = neg_direct_of path pos_direct in
       bind_err (report_branch path pos_direct neg_direct) (\<lambda>_.
         orient_branch dG path pos_direct neg_direct))"

fun branch_loop :: "matrix \<Rightarrow> nat list list \<Rightarrow> error + matrix" where
  "branch_loop dG [] = Inr dG"
| "branch_loop dG (path # rest) = bind_err (process_branch dG path) (\<lambda>dG1. branch_loop dG1 rest)"

definition branch_direction_voter :: "nat \<Rightarrow> nat list list \<Rightarrow> error + matrix" where
  "branch_direction_voter n branch_cell = branch_loop (replicate n (replicate n 0)) branch_cell"

subsection \<open>Concrete inputs used below\<close>

text \<open>
  The three-cluster example: the transition matrix, and the assignment matrix that puts
  one cell in each cluster with confidence 1.
\<close>

definition example_transition :: matrix where
  "example_transition = [[0, 2, 0], [2, 0, 1], [0, 1, 0]]"

definition example_R :: array2d where
  "example_R = \<lparr>ncols = 3, rows = [[1, 0, 0], [0, 1, 0], [0, 0, 1]]\<rparr>"

text \<open>
  A tree over four nodes, \<open>n = 2\<close>: real cells 0 and 1, duplicates 2 and 3, with the
  edges 0 - 2 (weight 1), 2 - 1 (weight 2) and 1 - 3 (weight 1). No duplicate is adjacent
  to a duplicate.
\<close>

definition example_tree :: matrix where
  "example_tree = [[0, 0, 1, 0], [0, 0, 2, 1], [1, 2, 0, 0], [0, 1, 0, 0]]"

text \<open>The totals alone, as the source holds them after line 87.\<close>

definition totals_of :: "matrix \<Rightarrow> array2d \<Rightarrow> error + real list" where
  "totals_of T R = bind_err (accumulate T R) (\<lambda>st. Inr (fst st))"

text \<open>Lines 112 and 113 of \<open>construct_velocity_tree\<close>: the forward segment likelihood.\<close>

definition forward_segment_p ::
  "matrix \<Rightarrow> array2d \<Rightarrow> nat list \<Rightarrow> error + npfloat list" where
  "forward_segment_p transition_matrix R orders =
     bind_err (compute_transition_matrix transition_matrix R)
       (\<lambda>center_transition_matrix. calculate_segment_probability center_transition_matrix orders)"

text \<open>
  For stating what \<open>calculate_angle\<close> returns: the difference vector, the unit vector
  and the dot product.
\<close>

definition difference :: "real list \<Rightarrow> real list \<Rightarrow> real list" where
  "difference y origin = map2 (\<lambda>a b. a - b) y origin"

definition unit_vector :: "real list \<Rightarrow> real list" where
  "unit_vector v = map (\<lambda>c. c / linalg_norm v) v"

definition dot :: "real list \<Rightarrow> real list \<Rightarrow> real" where
  "dot u v = sum_list (map2 (\<lambda>a b. a * b) u v)"

text \<open>
  For stating what the orienter does: one iteration of its loop as a function of the tree
  (with \<open>A[i, j] = v\<close> as a list update), square matrices, the pairs of positions that
  iteration \<open>i\<close> writes, and two spanning trees over three clusters with the edges
  0 - 1 and 1 - 2: one stored on both sides with the weights 2 and 1, one stored on one
  side only (at \<open>[0, 1]\<close> and \<open>[2, 1]\<close>) with the negative weights -2 and -1.
\<close>

definition update2 :: "'a list list \<Rightarrow> nat \<Rightarrow> nat \<Rightarrow> 'a \<Rightarrow> 'a list list" where
  "update2 A i j v = A[i := (A ! i)[j := v]]"

definition orient_step :: "matrix \<Rightarrow> nat \<Rightarrow> nat \<Rightarrow> bool \<Rightarrow> matrix" where
  "orient_step tree r c fwd =
     (if fwd then update2 (update2 tree r c (max (tree ! r ! c) (tree ! c ! r))) c r 0
      else update2 (update2 tree c r (max (tree ! r ! c) (tree ! c ! r))) r c 0)"

definition square :: "'a list list \<Rightarrow> nat \<Rightarrow> bool" where
  "square A n = (length A = n \<and> list_all (\<lambda>row. length row = n) A)"

definition touches :: "nat list \<Rightarrow> nat \<Rightarrow> nat \<Rightarrow> nat \<Rightarrow> bool" where
  "touches orders i x y =
     ((x = orders ! (i - 1) \<and> y = orders ! i) \<or> (x = orders ! i \<and> y = orders ! (i - 1)))"

definition example_mst :: matrix where
  "example_mst = [[0, 2, 0], [2, 0, 1], [0, 1, 0]]"

definition negative_mst :: matrix where
  "negative_mst = [[0, - 2, 0], [0, 0, 0], [0, - 1, 0]]"

section \<open>Properties\<close>

lemmas contractor_defs =
  remove_velocity_points_def contract_node_def nb_ids_of_def get1_def get2_def set2_def Let_def

lemmas aggregator_defs = numeral_3_eq_3
 
  compute_transition_matrix_def totals_of_def normalise_def symmetrise_def true_divide_def
  mask_pinf_def np_sub_def accumulate_def np_max_axis1_def np_argmax_axis1_def shape1_def
  clusters_def cluster_q_def get2_def Let_def

lemmas evaluator_defs =
  calculate_segment_probability_def log_matrix_def clean_log_def mask_pinf_def mask_ninf_def
  get1_def get2_def Let_def

text \<open>
  C1. After \<open>remove_velocity_points(G, n)\<close> on a tree in which no duplicate is adjacent
  to a duplicate, every duplicate node should have no incident edge. On the example tree
  the duplicate node 2 has the two neighbours 0 and 1: the source joins 1 to 0 with weight
  3 and then clears only the edge to \<open>nb_ids[0] = 0\<close>, so the edge between 2 and 1 (weight
  2) is still there in the result.
\<close>

theorem remove_velocity_points_leaves_edge:
  "remove_velocity_points example_tree 2 =
     Inr [[0, 3, 0, 0], [3, 0, 2, 0], [0, 2, 0, 0], [0, 0, 0, 0]]"
  by (simp add: example_tree_def contractor_defs)

text \<open>
  C5, as the claim states it: on the three-cluster example the totals would be 2, 3, 1 and
  the collapsed matrix the input itself, with segment likelihood \<open>[log 2, log 2 + log 1]\<close>.
  None of the three holds for the source.
\<close>

theorem example_not_as_claimed:
  "totals_of example_transition example_R \<noteq> Inr [2, 3, 1] \<and>
   compute_transition_matrix example_transition example_R \<noteq>
     Inr [[Fin 0, Fin 2, Fin 0], [Fin 2, Fin 0, Fin 1], [Fin 0, Fin 1, Fin 0]] \<and>
   forward_segment_p example_transition example_R [0, 1, 2] \<noteq>
     Inr [Fin (ln 2), Fin (ln 2 + ln 1)]"
  by (simp add: example_transition_def example_R_def forward_segment_p_def aggregator_defs
      evaluator_defs)

text \<open>
  C5, amended: on the three-cluster example the totals are 2, 1, 0 (each total runs over
  the clusters \<open>b \<ge> a\<close> only), the collapsed matrix is \<open>[[0,1,0],[1,0,1],[0,1,0]]\<close>, and
  the segment likelihood of the ordering \<open>[0, 1, 2]\<close> over it is \<open>[0, 0]\<close>. The
  likelihood \<open>[log 2, log 2 + log 1]\<close> is what the evaluator returns on the input matrix
  itself.
\<close>

theorem example_collapse:
  "totals_of example_transition example_R = Inr [2, 1, 0] \<and>
   compute_transition_matrix example_transition example_R =
     Inr [[Fin 0, Fin 1, Fin 0], [Fin 1, Fin 0, Fin 1], [Fin 0, Fin 1, Fin 0]] \<and>
   forward_segment_p example_transition example_R [0, 1, 2] = Inr [Fin 0, Fin 0] \<and>
   calculate_segment_probability
     [[Fin 0, Fin 2, Fin 0], [Fin 2, Fin 0, Fin 1], [Fin 0, Fin 1, Fin 0]] [0, 1, 2] =
     Inr [Fin (ln 2), Fin (ln 2 + ln 1)]"
  by (simp add: example_transition_def example_R_def forward_segment_p_def aggregator_defs
      evaluator_defs)

text \<open>
  C8. A branch of length 0 or 1 should be a no-op. In the source the empty branch raises
  an IndexError (the report reads \<open>path[0]\<close>) and a branch of one node raises a TypeError
  (the vote loop calls \<open>path(bp)\<close>).
\<close>

theorem short_branch_raises:
  "branch_direction_voter 3 [[]] = Inl IndexError \<and>
   branch_direction_voter 3 [[1]] = Inl TypeError"
  by (simp add: branch_direction_voter_def process_branch_def count_votes_def
      report_branch_def neg_direct_of_def)

subsection \<open>Float operations\<close>

lemma np_add_commute: "np_add x y = np_add y x"
  by (cases x; cases y) simp_all

lemma nan_to_num_finite: "is_finite (nan_to_num x)"
  by (cases x) (simp_all add: is_finite_def)

lemma is_finite_Fin [simp]: "is_finite (Fin a)"
  by (simp add: is_finite_def)

lemma is_finiteE: "is_finite x \<Longrightarrow> (\<And>a. x = Fin a \<Longrightarrow> P) \<Longrightarrow> P"
  by (cases x) (simp_all add: is_finite_def)

lemma is_finite_not_NaN: "is_finite x \<Longrightarrow> x \<noteq> NaN"
  by (auto simp: is_finite_def)

lemma is_finite_add: "is_finite x \<Longrightarrow> is_finite y \<Longrightarrow> is_finite (np_add x y)"
  by (elim is_finiteE) simp

lemma is_finite_sub: "is_finite x \<Longrightarrow> is_finite y \<Longrightarrow> is_finite (np_sub x y)"
  by (elim is_finiteE) (simp add: np_sub_def)

subsection \<open>The aggregator's loops\<close>

lemma collect_map_Inr: "collect (map Inr xs) = Inr xs"
  by (induction xs) simp_all

lemma cluster_q_Inr:
  assumes "set ca \<subseteq> {..<n}" "set cb \<subseteq> {..<n}" "n \<le> length T" "\<forall>row\<in>set T. n \<le> length row"
  shows "cluster_q T hp ca cb = Inr (pair_sum T hp ca cb)"
proof -
  have g: "get2 T i j = Inr (T ! i ! j)" if "i \<in> set ca" "j \<in> set cb" for i j
  proof -
    from that assms have "i < length T" "j < n" by auto
    moreover from \<open>i < length T\<close> assms(4) have "n \<le> length (T ! i)" by simp
    ultimately show ?thesis by (simp add: get2_def)
  qed
  have "concat (map (\<lambda>i. map (\<lambda>j. bind_err (get2 T i j) (\<lambda>t. Inr (hp ! i * hp ! j * t))) cb) ca)
      = map Inr (concat (map (\<lambda>i. map (\<lambda>j. hp ! i * hp ! j * T ! i ! j) cb) ca))"
    unfolding map_concat by (rule arg_cong[where f = concat]) (simp add: g)
  then show ?thesis
    by (simp add: cluster_q_def pair_sum_def collect_map_Inr)
qed

lemma inner_loop_Inr:
  assumes "\<forall>b\<in>set bs. cluster_q T hp (cl a) (cl b) = Inr (q b)" "a < length t" "a < length m"
  shows "inner_loop T hp cl a bs (t, m) =
           Inr (t[a := t ! a + sum_list (map q bs)], m[a := fold (\<lambda>b row. row[b := q b]) bs (m ! a)])"
  using assms
proof (induction bs arbitrary: t m)
  case Nil
  then show ?case by simp
next
  case (Cons b bs)
  then show ?case by (simp add: add.assoc)
qed

lemma outer_loop_Inr:
  assumes "\<forall>a\<in>set as. a < k \<and> (\<forall>b\<in>set [a..<k]. cluster_q T hp (cl a) (cl b) = Inr (q a b))"
    "length t = k" "length m = k"
  shows "outer_loop T hp cl k as (t, m) =
           Inr (fold (\<lambda>a t. t[a := t ! a + sum_list (map (q a) [a..<k])]) as t,
                fold (\<lambda>a m. m[a := fold (\<lambda>b row. row[b := q a b]) [a..<k] (m ! a)]) as m)"
  using assms
proof (induction as arbitrary: t m)
  case Nil
  then show ?case by simp
next
  case (Cons a as)
  have "inner_loop T hp cl a [a..<k] (t, m) =
           Inr (t[a := t ! a + sum_list (map (q a) [a..<k])], m[a := fold (\<lambda>b row. row[b := q a b]) [a..<k] (m ! a)])"
    using Cons.prems by (intro inner_loop_Inr) auto
  then show ?case using Cons by simp
qed

lemma length_fold_update: "length (fold (\<lambda>a xs. xs[a := g a xs]) as xs) = length xs"
  by (induction as arbitrary: xs) simp_all

lemma nth_fold_update:
  "distinct as \<Longrightarrow> i < length xs \<Longrightarrow>
     fold (\<lambda>a xs. xs[a := g a (xs ! a)]) as xs ! i = (if i \<in> set as then g i (xs ! i) else xs ! i)"
proof (induction as arbitrary: xs)
  case Nil
  then show ?case by simp
next
  case (Cons a as)
  then show ?case by (cases "i = a") auto
qed

lemma length_fold_row: "length (fold (\<lambda>b row. row[b := f b]) bs row) = length row"
  by (induction bs arbitrary: row) simp_all

lemma nth_fold_row:
  "j < length row \<Longrightarrow>
     fold (\<lambda>b row. row[b := f b]) bs row ! j = (if j \<in> set bs then f j else row ! j)"
proof (induction bs arbitrary: row)
  case Nil
  then show ?case by simp
next
  case (Cons b bs)
  then show ?case by (cases "j = b") auto
qed

lemma clusters_subset: "set (clusters asg i) \<subseteq> {..<length asg}"
  by (auto simp: clusters_def)

lemma well_shaped_rows: "well_shaped T R \<Longrightarrow> ncols R \<noteq> 0 \<and> [] \<notin> set (rows R)"
  by (auto simp: well_shaped_def shape1_def list_all_iff)

lemma accumulate_Inr:
  assumes "well_shaped T R"
  shows "accumulate T R =
           Inr (map (\<lambda>a. sum_list (map (q_of T R a) [a..<shape1 R])) [0..<shape1 R],
                map (\<lambda>a. map (\<lambda>b. if a \<le> b then q_of T R a b else 0) [0..<shape1 R]) [0..<shape1 R])"
proof -
  define k where "k = shape1 R"
  define hp where "hp = map list_max (rows R)"
  define cl where "cl = clusters (assignment_of R)"
  from assms have R: "ncols R \<noteq> 0"
    by (simp add: well_shaped_rows)
  from assms have T: "length (rows R) \<le> length T" "\<forall>row\<in>set T. length (rows R) \<le> length row"
    by (auto simp: well_shaped_def list_all_iff)
  have q: "cluster_q T hp (cl a) (cl b) = Inr (q_of T R a b)" for a b
    unfolding q_of_def hp_def cl_def
    by (rule cluster_q_Inr[where n = "length (rows R)"]) (use T clusters_subset[of "assignment_of R"] in \<open>auto simp: assignment_of_def\<close>)
  let ?t = "fold (\<lambda>a t. t[a := t ! a + sum_list (map (q_of T R a) [a..<k])]) [0..<k] (replicate k 0)"
  let ?m = "fold (\<lambda>a m. m[a := fold (\<lambda>b row. row[b := q_of T R a b]) [a..<k] (m ! a)]) [0..<k] (replicate k (replicate k 0))"
  have loop: "outer_loop T hp cl k [0..<k] (replicate k 0, replicate k (replicate k 0)) = Inr (?t, ?m)"
    by (rule outer_loop_Inr) (simp_all add: q)
  have t: "?t = map (\<lambda>a. sum_list (map (q_of T R a) [a..<k])) [0..<k]"
    by (rule nth_equalityI) (simp_all add: length_fold_update nth_fold_update[where g = "\<lambda>a x. x + sum_list (map (q_of T R a) [a..<k])"])
  have m: "?m = map (\<lambda>a. map (\<lambda>b. if a \<le> b then q_of T R a b else 0) [0..<k]) [0..<k]"
  proof (rule nth_equalityI)
    show "length ?m = length (map (\<lambda>a. map (\<lambda>b. if a \<le> b then q_of T R a b else 0) [0..<k]) [0..<k])"
      by (simp add: length_fold_update)
  next
    fix a assume "a < length ?m"
    then have a: "a < k" by (simp add: length_fold_update)
    then have "?m ! a = fold (\<lambda>b row. row[b := q_of T R a b]) [a..<k] (replicate k 0)"
      by (simp add: nth_fold_update[where g = "\<lambda>a x. fold (\<lambda>b row. row[b := q_of T R a b]) [a..<k] x"])
    also have "\<dots> = map (\<lambda>b. if a \<le> b then q_of T R a b else 0) [0..<k]"
      by (rule nth_equalityI) (simp_all add: length_fold_row nth_fold_row)
    finally show "?m ! a = map (\<lambda>a. map (\<lambda>b. if a \<le> b then q_of T R a b else 0) [0..<k]) [0..<k] ! a"
      using a by simp
  qed
  show ?thesis
    using R loop unfolding t m
    by (simp add: accumulate_def np_max_axis1_def np_argmax_axis1_def Let_def k_def hp_def cl_def assignment_of_def)
qed

lemma normalise_nth:
  "a < length transition \<Longrightarrow> b < length (transition ! a) \<Longrightarrow>
     normalise totals transition ! a ! b =
       nan_to_num (mask_pinf (true_divide (transition ! a ! b) (totals ! a)))"
  by (simp add: normalise_def)

lemma length_normalise: "length (normalise totals transition) = length transition"
  by (simp add: normalise_def)

lemma length_normalise_row:
  "a < length transition \<Longrightarrow> length (normalise totals transition ! a) = length (transition ! a)"
  by (simp add: normalise_def)

lemma symmetrise_nth:
  "a < length res \<Longrightarrow> b < length res \<Longrightarrow>
     symmetrise res ! a ! b =
       np_sub (np_add (res ! a ! b) (res ! b ! a)) (if a = b then res ! a ! a else Fin 0)"
  by (simp add: symmetrise_def)

lemma symmetrise_symmetric:
  "a < length res \<Longrightarrow> b < length res \<Longrightarrow> symmetrise res ! a ! b = symmetrise res ! b ! a"
  by (auto simp: symmetrise_nth np_add_commute)

lemma compute_transition_matrix_Inr:
  assumes "well_shaped T R"
  shows "compute_transition_matrix T R =
     Inr (symmetrise (normalise
       (map (\<lambda>a. sum_list (map (q_of T R a) [a..<shape1 R])) [0..<shape1 R])
       (map (\<lambda>a. map (\<lambda>b. if a \<le> b then q_of T R a b else 0) [0..<shape1 R]) [0..<shape1 R])))"
  by (simp add: compute_transition_matrix_def accumulate_Inr[OF assms])

text \<open>
  C2. For every well-shaped input the aggregator returns a square matrix over the clusters
  that is symmetric, \<open>M[a,b] = M[b,a]\<close>; no entry is NaN, so the equality is also the
  one that \<open>==\<close> tests.
\<close>

theorem aggregator_symmetric:
  assumes "well_shaped T R"
  shows "\<exists>M. compute_transition_matrix T R = Inr M \<and> length M = shape1 R \<and>
           (\<forall>a b. a < shape1 R \<and> b < shape1 R \<longrightarrow>
              length (M ! a) = shape1 R \<and> M ! a ! b = M ! b ! a \<and> M ! a ! b \<noteq> NaN)"
proof -
  let ?res = "normalise
       (map (\<lambda>a. sum_list (map (q_of T R a) [a..<shape1 R])) [0..<shape1 R])
       (map (\<lambda>a. map (\<lambda>b. if a \<le> b then q_of T R a b else 0) [0..<shape1 R]) [0..<shape1 R])"
  have len: "length ?res = shape1 R" by (simp add: length_normalise)
  have fin: "is_finite (?res ! a ! b)" if "a < shape1 R" "b < shape1 R" for a b
    using that by (simp add: normalise_nth nan_to_num_finite)
  have "is_finite (symmetrise ?res ! a ! b)" if "a < shape1 R" "b < shape1 R" for a b
    using that fin len by (simp add: symmetrise_nth is_finite_sub is_finite_add)
  then have nn: "symmetrise ?res ! a ! b \<noteq> NaN" if "a < shape1 R" "b < shape1 R" for a b
    using that by (simp add: is_finite_not_NaN)
  have "length (symmetrise ?res) = shape1 R"
    by (simp add: symmetrise_def len)
  moreover have "length (symmetrise ?res ! a) = shape1 R" if "a < shape1 R" for a
    using that by (simp add: symmetrise_def len)
  ultimately show ?thesis
    using symmetrise_symmetric[of _ ?res] nn len
    by (simp add: compute_transition_matrix_Inr[OF assms])
qed


theorem aggregator_symmetric_witness:
  "well_shaped example_transition example_R \<and>
   (\<exists>M. compute_transition_matrix example_transition example_R = Inr M \<and>
        M ! 0 ! 1 = M ! 1 ! 0 \<and> M ! 0 ! 2 = M ! 2 ! 0 \<and> M ! 1 ! 2 = M ! 2 ! 1)"
proof -
  have h: "well_shaped example_transition example_R"
    by (simp add: well_shaped_def shape1_def example_transition_def example_R_def)
  have k: "shape1 example_R = 3"
    by (simp add: shape1_def example_R_def)
  from aggregator_symmetric[OF h] obtain M where
    M: "compute_transition_matrix example_transition example_R = Inr M"
    and sym: "\<And>a b. a < 3 \<Longrightarrow> b < 3 \<Longrightarrow> M ! a ! b = M ! b ! a"
    unfolding k by blast
  from sym[of 0 1] sym[of 0 2] sym[of 1 2] M h show ?thesis by simp
qed

lemma sum_list_upper:
  "a \<le> k \<Longrightarrow> sum_list (map (\<lambda>b. if a \<le> b then f b else (0::real)) [0..<k]) = sum_list (map f [a..<k])"
proof (induction k)
  case 0
  then show ?case by simp
next
  case (Suc k)
  show ?case
  proof (cases "a \<le> k")
    case True
    with Suc.IH show ?thesis by simp
  next
    case False
    with Suc.prems have "a = Suc k" by simp
    then have "sum_list (map (\<lambda>b. if a \<le> b then f b else 0) [0..<k]) =
        sum_list (map (\<lambda>b. 0) [0..<k])"
      by (intro arg_cong[where f = sum_list] map_cong) auto
    then have "sum_list (map (\<lambda>b. if a \<le> b then f b else 0) [0..<k]) = 0"
      by (simp only: sum_list_0)
    with \<open>a = Suc k\<close> show ?thesis by simp
  qed
qed

lemma sum_list_divide: "sum_list (map (\<lambda>x. x / (t::real)) xs) = sum_list xs / t"
  by (induction xs) (simp_all add: add_divide_distrib)

text \<open>
  C4, as the claim states it: the denominator of cluster \<open>a\<close> would be the sum of
  \<open>q(a, b)\<close> over every cluster \<open>b\<close>. On the three-cluster example that sum is 3 for
  cluster 1, and the total the source divides by is 1.
\<close>

theorem total_not_over_every_cluster:
  "q_of example_transition example_R 1 0 + q_of example_transition example_R 1 1 +
     q_of example_transition example_R 1 2 = 3 \<and>
   totals_of example_transition example_R = Inr [2, 1, 0]"
  by (simp add: example_transition_def example_R_def q_of_def pair_sum_def assignment_of_def
      aggregator_defs)

text \<open>
  C4, amended: the denominator of cluster \<open>a\<close> is the sum of \<open>q(a, b)\<close> over the
  clusters \<open>b \<ge> a\<close>. An entry on or above the diagonal is \<open>q(a, b) / total[a]\<close>, an
  entry below the diagonal is 0, and a division by a zero total that gives plus infinity or
  NaN is replaced by 0. In exact arithmetic the quotients \<open>q(a, b) / total[a]\<close> of row
  \<open>a\<close> sum to 1 whenever \<open>total[a] > 0\<close>; the row that the source holds consists of
  their roundings, so its floating-point sum is 1 up to rounding only.
\<close>

theorem normalisation_rows:
  assumes "well_shaped T R" and "a < shape1 R"
  shows "\<exists>totals transition. accumulate T R = Inr (totals, transition) \<and>
           totals ! a = sum_list (map (q_of T R a) [a..<shape1 R]) \<and>
           (\<forall>b. b < shape1 R \<longrightarrow>
              (a \<le> b \<and> totals ! a \<noteq> 0 \<longrightarrow>
                 normalise totals transition ! a ! b = Fin (q_of T R a b / totals ! a)) \<and>
              (b < a \<longrightarrow> normalise totals transition ! a ! b = Fin 0) \<and>
              (totals ! a = 0 \<and> 0 \<le> q_of T R a b \<longrightarrow>
                 normalise totals transition ! a ! b = Fin 0)) \<and>
           (0 < totals ! a \<longrightarrow>
              sum_list (map (\<lambda>b. q_of T R a b / totals ! a) [a..<shape1 R]) = 1)"
proof -
  define k where "k = shape1 R"
  define totals where "totals = map (\<lambda>a. sum_list (map (q_of T R a) [a..<k])) [0..<k]"
  define transition where
    "transition = map (\<lambda>a. map (\<lambda>b. if a \<le> b then q_of T R a b else 0) [0..<k]) [0..<k]"
  have acc: "accumulate T R = Inr (totals, transition)"
    unfolding totals_def transition_def k_def by (rule accumulate_Inr[OF assms(1)])
  have a: "a < k" using assms(2) by (simp add: k_def)
  have t: "totals ! a = sum_list (map (q_of T R a) [a..<k])"
    using a by (simp add: totals_def)
  have row: "transition ! a = map (\<lambda>b. if a \<le> b then q_of T R a b else 0) [0..<k]"
    using a by (simp add: transition_def)
  have len: "length transition = k" by (simp add: transition_def)
  have entry: "normalise totals transition ! a ! b =
      nan_to_num (mask_pinf (true_divide (if a \<le> b then q_of T R a b else 0) (totals ! a)))"
    if "b < k" for b
    using a that by (simp add: normalise_nth len row)
  have e1: "normalise totals transition ! a ! b = Fin (q_of T R a b / totals ! a)"
    if "b < k" "a \<le> b" "totals ! a \<noteq> 0" for b
    using that by (simp add: entry true_divide_def mask_pinf_def)
  have e2: "normalise totals transition ! a ! b = Fin 0" if "b < k" "b < a" for b
    using that by (simp add: entry true_divide_def mask_pinf_def)
  have e3: "normalise totals transition ! a ! b = Fin 0"
    if "b < k" "totals ! a = 0" "0 \<le> q_of T R a b" for b
    using that by (simp add: entry true_divide_def mask_pinf_def)
  have rowsum: "sum_list (map (\<lambda>b. q_of T R a b / totals ! a) [a..<k]) = 1"
    if pos: "0 < totals ! a"
  proof -
    have "sum_list (map (\<lambda>b. q_of T R a b / totals ! a) [a..<k]) =
          sum_list (map (\<lambda>x. x / totals ! a) (map (q_of T R a) [a..<k]))"
      by (simp add: comp_def)
    also have "\<dots> = sum_list (map (q_of T R a) [a..<k]) / totals ! a"
      by (rule sum_list_divide)
    also have "\<dots> = 1"
      using pos by (simp add: t[symmetric])
    finally show ?thesis .
  qed
  show ?thesis
    using acc t e1 e2 e3 rowsum unfolding k_def[symmetric] by blast
qed


theorem normalisation_rows_witness:
  "well_shaped example_transition example_R \<and> 1 < shape1 example_R \<and>
   (\<exists>totals transition.
      accumulate example_transition example_R = Inr (totals, transition) \<and>
      totals ! 1 = 1 \<and>
      normalise totals transition ! 1 ! 2 = Fin 1 \<and>
      normalise totals transition ! 1 ! 0 = Fin 0 \<and>
      sum_list (map (\<lambda>b. q_of example_transition example_R 1 b / totals ! 1)
                  [1..<shape1 example_R]) = 1)"
proof -
  have h: "well_shaped example_transition example_R"
    by (simp add: well_shaped_def shape1_def example_transition_def example_R_def)
  have k: "shape1 example_R = 3"
    by (simp add: shape1_def example_R_def)
  have a: "1 < shape1 example_R"
    by (simp add: k)
  have ev: "accumulate example_transition example_R = Inr ([2, 1, 0], [[0, 2, 0], [0, 0, 1], [0, 0, 0]])"
    by (simp add: example_transition_def example_R_def aggregator_defs)
  have q: "q_of example_transition example_R 1 2 = 1"
    by (simp add: example_transition_def example_R_def q_of_def pair_sum_def assignment_of_def
        clusters_def)
  from normalisation_rows[OF h a] obtain totals transition where
    acc: "accumulate example_transition example_R = Inr (totals, transition)"
    and e: "\<forall>b. b < shape1 example_R \<longrightarrow>
              (1 \<le> b \<and> totals ! 1 \<noteq> 0 \<longrightarrow>
                 normalise totals transition ! 1 ! b =
                   Fin (q_of example_transition example_R 1 b / totals ! 1)) \<and>
              (b < 1 \<longrightarrow> normalise totals transition ! 1 ! b = Fin 0) \<and>
              (totals ! 1 = 0 \<and> 0 \<le> q_of example_transition example_R 1 b \<longrightarrow>
                 normalise totals transition ! 1 ! b = Fin 0)"
    and s: "0 < totals ! 1 \<longrightarrow>
              sum_list (map (\<lambda>b. q_of example_transition example_R 1 b / totals ! 1)
                          [1..<shape1 example_R]) = 1"
    by (elim exE conjE)
  from acc[unfolded ev] have "totals = [2, 1, 0]" by simp
  then have t: "totals ! 1 = 1" by simp
  from e[rule_format, of 2] t q have e2: "normalise totals transition ! 1 ! 2 = Fin 1"
    by (simp add: k)
  from e[rule_format, of 0] have e0: "normalise totals transition ! 1 ! 0 = Fin 0"
    by (simp add: k)
  from s t have "sum_list (map (\<lambda>b. q_of example_transition example_R 1 b / totals ! 1)
                          [1..<shape1 example_R]) = 1"
    by simp
  with h a acc t e2 e0 show ?thesis by blast
qed

subsection \<open>The segment likelihood evaluator\<close>

lemma clean_log_finite: "is_finite (clean_log x)"
  by (simp add: clean_log_def nan_to_num_finite)

lemma clean_log_zero: "\<not> is_finite (np_log x) \<Longrightarrow> clean_log x = Fin 0"
  by (cases x) (auto simp: clean_log_def mask_pinf_def mask_ninf_def split: if_splits)

lemma log_matrix_nth:
  "i < length C \<Longrightarrow> j < length (C ! i) \<Longrightarrow> log_matrix C ! i ! j = clean_log (C ! i ! j)"
  by (simp add: log_matrix_def)

lemma log_matrix_finite: "row \<in> set (log_matrix C) \<Longrightarrow> x \<in> set row \<Longrightarrow> is_finite x"
  by (auto simp: log_matrix_def clean_log_finite)

lemma segment_loop_Inr:
  assumes "2 \<le> i" "i \<le> n" "n \<le> length orders" "length p = i - 1"
    and "\<forall>v\<in>set orders. v < length L" "\<forall>row\<in>set L. length row = length L"
  shows "\<exists>p'. segment_loop L orders [i..<n] p = Inr p' \<and> length p' = n - 1"
  using assms(1-4)
proof (induction "n - i" arbitrary: i p)
  case 0
  then show ?case by simp
next
  case (Suc d)
  then have lt: "i < n" by simp
  with Suc.prems have i: "i < length orders" "i - 1 < length orders" "i - 2 < length p" by simp_all
  then have r: "orders ! (i - 1) < length L" and c: "orders ! i < length L"
    using assms(5) by simp_all
  from r assms(6) have "length (L ! (orders ! (i - 1))) = length L" by simp
  with r c have g: "get2 L (orders ! (i - 1)) (orders ! i) = Inr (L ! (orders ! (i - 1)) ! (orders ! i))"
    by (simp add: get2_def)
  have "\<exists>p'. segment_loop L orders [Suc i..<n] (p @ [np_add (p ! (i - 2)) (L ! (orders ! (i - 1)) ! (orders ! i))]) = Inr p' \<and> length p' = n - 1"
    using Suc.hyps(2) Suc.prems lt by (intro Suc.hyps(1)) simp_all
  then show ?case
    using lt i g by (simp add: upt_conv_Cons get1_def)
qed

lemma bind_err_eq_Inr: "bind_err m f = Inr y \<longleftrightarrow> (\<exists>x. m = Inr x \<and> f x = Inr y)"
  by (cases m) simp_all

lemma get1_eq_Inr: "get1 xs i = Inr x \<longleftrightarrow> i < length xs \<and> x = xs ! i"
  by (auto simp: get1_def)

lemma get2_eq_Inr: "get2 A i j = Inr x \<longleftrightarrow> i < length A \<and> j < length (A ! i) \<and> x = A ! i ! j"
  by (auto simp: get2_def)

lemma segment_loop_finite:
  assumes "segment_loop L orders is p = Inr p'" "\<forall>x\<in>set p. is_finite x"
    and "\<forall>row\<in>set L. \<forall>x\<in>set row. is_finite x"
  shows "\<forall>x\<in>set p'. is_finite x"
  using assms(1,2)
proof (induction "is" arbitrary: p)
  case Nil
  then show ?case by simp
next
  case (Cons i "is")
  from Cons.prems(1) obtain r c where
    prev: "i - 2 < length p" and l: "r < length L" "c < length (L ! r)"
    and rest: "segment_loop L orders is (p @ [np_add (p ! (i - 2)) (L ! r ! c)]) = Inr p'"
    by (auto simp: bind_err_eq_Inr get1_eq_Inr get2_eq_Inr)
  from l assms(3) have "is_finite (L ! r ! c)"
    using nth_mem[of r L] nth_mem[of c "L ! r"] by blast
  moreover from prev Cons.prems(2) have "is_finite (p ! (i - 2))" by simp
  ultimately have "\<forall>x\<in>set (p @ [np_add (p ! (i - 2)) (L ! r ! c)]). is_finite x"
    using Cons.prems(2) by (simp add: is_finite_add)
  with rest show ?case by (rule Cons.IH)
qed

lemma calculate_segment_probability_Inr:
  assumes "2 \<le> length orders" "\<forall>v\<in>set orders. v < length C" "\<forall>row\<in>set C. length row = length C"
  shows "\<exists>p. calculate_segment_probability C orders = Inr p \<and> length p = length orders - 1"
proof -
  let ?L = "log_matrix C"
  have len: "length ?L = length C" and rows: "\<forall>row\<in>set ?L. length row = length ?L"
    using assms(3) by (auto simp: log_matrix_def)
  from assms(1) have pos: "0 < length orders" "1 < length orders" by linarith+
  then have "orders ! 0 \<in> set orders" "orders ! 1 \<in> set orders" by (simp_all only: nth_mem)
  with assms(2) have o: "orders ! 0 < length ?L" "orders ! 1 < length ?L"
    unfolding len by blast+
  with rows have g: "get2 ?L (orders ! 0) (orders ! 1) = Inr (?L ! (orders ! 0) ! (orders ! 1))"
    by (simp add: get2_def)
  have "\<exists>p'. segment_loop ?L orders [2..<length orders] [?L ! (orders ! 0) ! (orders ! 1)] = Inr p' \<and>
          length p' = length orders - 1"
    using assms(1,2) rows by (intro segment_loop_Inr) (simp_all add: len)
  then show ?thesis
    using pos g by (simp add: calculate_segment_probability_def get1_def Let_def)
qed

lemma calculate_segment_probability_short:
  "length orders < 2 \<Longrightarrow> calculate_segment_probability C orders = Inl IndexError"
  by (cases orders) (simp_all add: calculate_segment_probability_def get1_def)

text \<open>
  C9. For an ordering of length \<open>n \<ge> 2\<close> whose entries index the (square) matrix, the
  evaluator returns a sequence of length \<open>n - 1\<close>; for an ordering of length 0 or 1 the
  first index access is out of bounds and no result is produced.
\<close>

theorem segment_probability_length:
  "(2 \<le> length orders \<and> (\<forall>v\<in>set orders. v < length C) \<and> (\<forall>row\<in>set C. length row = length C) \<longrightarrow>
      (\<exists>p. calculate_segment_probability C orders = Inr p \<and> length p = length orders - 1)) \<and>
   (length orders < 2 \<longrightarrow> calculate_segment_probability C orders = Inl IndexError)"
  using calculate_segment_probability_Inr[of orders C] calculate_segment_probability_short[of orders C]
  by blast

theorem segment_probability_length_witness:
  "(\<exists>p. calculate_segment_probability
          [[Fin 0, Fin 1, Fin 0], [Fin 1, Fin 0, Fin 1], [Fin 0, Fin 1, Fin 0]] [0, 1, 2] = Inr p \<and>
        length p = 2) \<and>
   calculate_segment_probability [[Fin 1]] [0] = Inl IndexError \<and>
   calculate_segment_probability [[Fin 1]] [] = Inl IndexError"
  using segment_probability_length
          [of "[0, 1, 2]" "[[Fin 0, Fin 1, Fin 0], [Fin 1, Fin 0, Fin 1], [Fin 0, Fin 1, Fin 0]]"]
        segment_probability_length [of "[0]" "[[Fin 1]]"]
        segment_probability_length [of "[]" "[[Fin 1]]"]
  by (simp add: numeral_2_eq_2)


subsection \<open>Finite outputs\<close>

lemma list_max_mem: "r \<noteq> [] \<Longrightarrow> list_max r \<in> set r"
proof (cases r)
  case Nil
  then show "r \<noteq> [] \<Longrightarrow> ?thesis" by simp
next
  case (Cons x xs)
  have "fold max ys y \<in> set (y # ys)" for y :: real and ys
    by (induction ys arbitrary: y) (auto simp: max_def)
  with Cons show ?thesis by simp
qed

lemma pair_sum_nonneg:
  assumes "\<forall>i\<in>set ca. 0 \<le> hp ! i" "\<forall>j\<in>set cb. 0 \<le> hp ! j"
    and "\<forall>i\<in>set ca. \<forall>j\<in>set cb. 0 \<le> T ! i ! j"
  shows "0 \<le> pair_sum T hp ca cb"
  unfolding pair_sum_def using assms by (intro sum_list_nonneg) auto

lemma q_of_nonneg:
  assumes "well_shaped T R" "nonneg T" "nonneg (rows R)"
  shows "0 \<le> q_of T R a b"
proof -
  from assms(1) have R: "[] \<notin> set (rows R)" and T: "length (rows R) \<le> length T" "\<forall>row\<in>set T. length (rows R) \<le> length row"
    by (auto simp: well_shaped_rows well_shaped_def list_all_iff)
  have hp: "0 \<le> map list_max (rows R) ! i" if "i < length (rows R)" for i
  proof -
    from that R have "rows R ! i \<noteq> []" by (metis nth_mem)
    then have "list_max (rows R ! i) \<in> set (rows R ! i)" by (rule list_max_mem)
    moreover from assms(3) nth_mem[OF that] have "\<forall>x\<in>set (rows R ! i). 0 \<le> x"
      unfolding nonneg_def list_all_iff by blast
    ultimately show ?thesis using that by simp
  qed
  have t: "0 \<le> T ! i ! j" if "i < length (rows R)" "j < length (rows R)" for i j
  proof -
    from that T have "i < length T" by simp
    then have "T ! i \<in> set T" by simp
    moreover from this T that have "j < length (T ! i)" by fastforce
    ultimately show ?thesis using assms(2) nth_mem[of j "T ! i"]
      unfolding nonneg_def list_all_iff by blast
  qed
  have cl: "i < length (rows R)" if "i \<in> set (clusters (assignment_of R) c)" for i c
    using that by (simp add: clusters_def assignment_of_def)
  show ?thesis
    unfolding q_of_def
  proof (rule pair_sum_nonneg)
    show "\<forall>i\<in>set (clusters (assignment_of R) a). 0 \<le> map list_max (rows R) ! i"
      using hp cl by blast
    show "\<forall>j\<in>set (clusters (assignment_of R) b). 0 \<le> map list_max (rows R) ! j"
      using hp cl by blast
    show "\<forall>i\<in>set (clusters (assignment_of R) a). \<forall>j\<in>set (clusters (assignment_of R) b). 0 \<le> T ! i ! j"
      using t cl by blast
  qed
qed



lemma symmetrise_finite:
  assumes "\<And>a b. a < length res \<Longrightarrow> b < length res \<Longrightarrow> is_finite (res ! a ! b)"
    and "row \<in> set (symmetrise res)" "x \<in> set row"
  shows "is_finite x"
proof -
  from assms(2) obtain a where a: "a < length res"
    and row: "row = map (\<lambda>b. np_sub (np_add (res ! a ! b) (res ! b ! a))
                               (if a = b then res ! a ! a else Fin 0)) [0..<length res]"
    unfolding symmetrise_def by auto
  from assms(3) obtain b where b: "b < length res"
    and x: "x = np_sub (np_add (res ! a ! b) (res ! b ! a)) (if a = b then res ! a ! a else Fin 0)"
    unfolding row by auto
  show ?thesis
    unfolding x using a b assms(1) by (simp add: is_finite_sub is_finite_add)
qed

lemma normalise_nonneg_zero:
  assumes "0 \<le> q" "\<not> is_finite (true_divide q t)"
  shows "nan_to_num (mask_pinf (true_divide q t)) = Fin 0"
proof (cases "t = 0")
  case True
  with assms(1) show ?thesis
    by (cases "q = 0") (simp_all add: true_divide_def mask_pinf_def)
next
  case False
  with assms(2) show ?thesis by (simp add: true_divide_def)
qed


lemma aggregator_finite:
  assumes "well_shaped T R" "nonneg T" "nonneg (rows R)"
  shows "\<exists>totals transition M.
            accumulate T R = Inr (totals, transition) \<and>
            compute_transition_matrix T R = Inr M \<and>
            (\<forall>row\<in>set M. \<forall>x\<in>set row. is_finite x) \<and>
            (\<forall>a b. a < shape1 R \<and> b < shape1 R \<and>
                   \<not> is_finite (true_divide (transition ! a ! b) (totals ! a)) \<longrightarrow>
                   normalise totals transition ! a ! b = Fin 0)"
proof -
  define k where "k = shape1 R"
  define totals where "totals = map (\<lambda>a. sum_list (map (q_of T R a) [a..<k])) [0..<k]"
  define transition where
    "transition = map (\<lambda>a. map (\<lambda>b. if a \<le> b then q_of T R a b else 0) [0..<k]) [0..<k]"
  define res where "res = normalise totals transition"
  have acc: "accumulate T R = Inr (totals, transition)"
    unfolding totals_def transition_def k_def by (rule accumulate_Inr[OF assms(1)])
  have M: "compute_transition_matrix T R = Inr (symmetrise res)"
    by (simp add: compute_transition_matrix_def acc res_def)
  have len: "length transition = k" "length res = k"
    by (simp_all add: transition_def res_def length_normalise)
  have tr: "transition ! a ! b = (if a \<le> b then q_of T R a b else 0)" if "a < k" "b < k" for a b
    using that by (simp add: transition_def)
  have entry: "res ! a ! b = nan_to_num (mask_pinf (true_divide (transition ! a ! b) (totals ! a)))"
    if "a < k" "b < k" for a b
    using that unfolding res_def by (intro normalise_nth) (simp_all add: transition_def)
  have fin: "is_finite (res ! a ! b)" if "a < length res" "b < length res" for a b
    using that by (simp add: entry len nan_to_num_finite)
  have rows: "\<forall>row\<in>set (symmetrise res). \<forall>x\<in>set row. is_finite x"
    using symmetrise_finite[of res, OF fin] by blast
  have zero: "res ! a ! b = Fin 0"
    if "a < k" "b < k" "\<not> is_finite (true_divide (transition ! a ! b) (totals ! a))" for a b
  proof -
    have "0 \<le> transition ! a ! b"
      using q_of_nonneg[OF assms, of a b] by (simp add: tr[OF that(1,2)])
    then show ?thesis
      unfolding entry[OF that(1,2)] using that(3) by (rule normalise_nonneg_zero)
  qed
  have "\<forall>a b. a < k \<and> b < k \<and> \<not> is_finite (true_divide (transition ! a ! b) (totals ! a)) \<longrightarrow>
          res ! a ! b = Fin 0"
    using zero by blast
  with acc M rows show ?thesis
    unfolding res_def k_def by (intro exI[of _ totals] exI[of _ transition] exI[of _ "symmetrise (normalise totals transition)"] conjI)
qed


lemma segment_probability_finite:
  assumes "calculate_segment_probability C orders = Inr p"
  shows "\<forall>x\<in>set p. is_finite x"
proof -
  let ?L = "log_matrix C"
  from assms obtain l where
    l: "get2 ?L (orders ! 0) (orders ! 1) = Inr l"
    and loop: "segment_loop ?L orders [2..<length orders] [l] = Inr p"
    unfolding calculate_segment_probability_def Let_def bind_err_eq_Inr get1_eq_Inr by blast
  from l have "l \<in> set (?L ! (orders ! 0))" "?L ! (orders ! 0) \<in> set ?L"
    unfolding get2_eq_Inr by simp_all
  then have "is_finite l" using log_matrix_finite by blast
  then have "\<forall>x\<in>set [l]. is_finite x" by simp
  with loop show ?thesis
    using log_matrix_finite by (intro segment_loop_finite[of ?L orders _ "[l]" p]) blast+
qed

text \<open>
  C6. For non-negative inputs every entry of the aggregator's output matrix and every entry
  of the evaluator's output sequence is a finite number: a division whose result is not
  finite leaves 0 in the normalised matrix, and a logarithm whose result is not finite
  leaves 0 in the log matrix.
\<close>

theorem zero_safety:
  assumes "well_shaped T R" "nonneg T" "nonneg (rows R)"
    and "2 \<le> length orders" "\<forall>v\<in>set orders. v < length C" "\<forall>row\<in>set C. length row = length C"
  shows "(\<exists>totals transition M.
            accumulate T R = Inr (totals, transition) \<and>
            compute_transition_matrix T R = Inr M \<and>
            (\<forall>row\<in>set M. \<forall>x\<in>set row. is_finite x) \<and>
            (\<forall>a b. a < shape1 R \<and> b < shape1 R \<and>
                   \<not> is_finite (true_divide (transition ! a ! b) (totals ! a)) \<longrightarrow>
                   normalise totals transition ! a ! b = Fin 0)) \<and>
         (\<exists>p. calculate_segment_probability C orders = Inr p \<and> (\<forall>x\<in>set p. is_finite x)) \<and>
         (\<forall>i j. i < length C \<and> j < length C \<and> \<not> is_finite (np_log (C ! i ! j)) \<longrightarrow>
                log_matrix C ! i ! j = Fin 0)"
proof (intro conjI)
  show "\<exists>totals transition M.
            accumulate T R = Inr (totals, transition) \<and>
            compute_transition_matrix T R = Inr M \<and>
            (\<forall>row\<in>set M. \<forall>x\<in>set row. is_finite x) \<and>
            (\<forall>a b. a < shape1 R \<and> b < shape1 R \<and>
                   \<not> is_finite (true_divide (transition ! a ! b) (totals ! a)) \<longrightarrow>
                   normalise totals transition ! a ! b = Fin 0)"
    by (rule aggregator_finite[OF assms(1-3)])
next
  from calculate_segment_probability_Inr[OF assms(4-6)] obtain p where
    p: "calculate_segment_probability C orders = Inr p" by blast
  from segment_probability_finite[OF p] p
  show "\<exists>p. calculate_segment_probability C orders = Inr p \<and> (\<forall>x\<in>set p. is_finite x)"
    by blast
next
  show "\<forall>i j. i < length C \<and> j < length C \<and> \<not> is_finite (np_log (C ! i ! j)) \<longrightarrow>
                log_matrix C ! i ! j = Fin 0"
  proof (intro allI impI)
    fix i j assume a: "i < length C \<and> j < length C \<and> \<not> is_finite (np_log (C ! i ! j))"
    then have "C ! i \<in> set C" by simp
    with assms(6) a have "j < length (C ! i)" by simp
    with a show "log_matrix C ! i ! j = Fin 0"
      by (simp add: log_matrix_nth clean_log_zero)
  qed
qed

theorem zero_safety_witness:
  "well_shaped example_transition example_R \<and> nonneg example_transition \<and> nonneg (rows example_R) \<and>
   (\<exists>M. compute_transition_matrix example_transition example_R = Inr M \<and>
        (\<forall>row\<in>set M. \<forall>x\<in>set row. is_finite x)) \<and>
   (\<exists>p. calculate_segment_probability
          [[Fin 0, Fin 1, Fin 0], [Fin 1, Fin 0, Fin 1], [Fin 0, Fin 1, Fin 0]] [0, 1, 2] = Inr p \<and>
        (\<forall>x\<in>set p. is_finite x)) \<and>
   log_matrix [[Fin 0, Fin 1, Fin 0], [Fin 1, Fin 0, Fin 1], [Fin 0, Fin 1, Fin 0]] ! 0 ! 0 = Fin 0"
proof -
  let ?C = "[[Fin 0, Fin 1, Fin 0], [Fin 1, Fin 0, Fin 1], [Fin 0, Fin 1, Fin 0]]"
  have h: "well_shaped example_transition example_R" "nonneg example_transition" "nonneg (rows example_R)"
    by (simp_all add: well_shaped_def nonneg_def shape1_def example_transition_def example_R_def)
  have o: "2 \<le> length [0, 1, 2::nat]" "\<forall>v\<in>set [0, 1, 2::nat]. v < length ?C"
    "\<forall>row\<in>set ?C. length row = length ?C"
    by simp_all
  have z: "(0::nat) < length ?C \<and> (0::nat) < length ?C \<and> \<not> is_finite (np_log (?C ! 0 ! 0))"
    by (simp add: is_finite_def)
  from zero_safety[OF h o] z h show ?thesis by blast
qed

subsection \<open>The angle\<close>

lemma square_le_sum_squares: "x \<in> set v \<Longrightarrow> x * x \<le> sum_list (map (\<lambda>c. c * c) (v::real list))"
proof (induction v)
  case Nil
  then show ?case by simp
next
  case (Cons a v)
  have rest: "0 \<le> sum_list (map (\<lambda>c. c * c) v)"
    by (rule sum_list_nonneg) auto
  show ?case
  proof (cases "x = a")
    case True
    with rest show ?thesis by simp
  next
    case False
    with Cons have "x * x \<le> sum_list (map (\<lambda>c. c * c) v)" by simp
    then have "x * x \<le> a * a + sum_list (map (\<lambda>c. c * c) v)"
      using zero_le_square[of a] by linarith
    then show ?thesis by simp
  qed
qed

lemma abs_le_linalg_norm: "x \<in> set v \<Longrightarrow> \<bar>x\<bar> \<le> linalg_norm v"
proof -
  assume "x \<in> set v"
  then have "sqrt (x * x) \<le> sqrt (sum_list (map (\<lambda>c. c * c) v))"
    by (intro real_sqrt_le_mono square_le_sum_squares)
  then show ?thesis by (simp add: linalg_norm_def)
qed

lemma linalg_norm_nonneg: "0 \<le> linalg_norm v"
  unfolding linalg_norm_def by (intro real_sqrt_ge_zero sum_list_nonneg) auto

lemma linalg_norm_nonzero: "\<exists>c\<in>set v. c \<noteq> 0 \<Longrightarrow> linalg_norm v \<noteq> 0"
proof -
  assume "\<exists>c\<in>set v. c \<noteq> 0"
  then obtain c where c: "c \<in> set v" "c \<noteq> 0" by blast
  then have "0 < \<bar>c\<bar>" by simp
  also have "\<bar>c\<bar> \<le> linalg_norm v" using c(1) by (rule abs_le_linalg_norm)
  finally show ?thesis by simp
qed

lemma unit_component: "linalg_norm v \<noteq> 0 \<Longrightarrow> x \<in> set v \<Longrightarrow> \<bar>x / linalg_norm v\<bar> \<le> 1"
  using abs_le_linalg_norm[of x v] linalg_norm_nonneg[of v] by (simp add: divide_le_eq)

lemma unit_product:
  assumes "\<bar>a\<bar> \<le> 1" "\<bar>b\<bar> \<le> (1::real)"
  shows "- 1 \<le> a * b \<and> a * b \<le> 1"
proof -
  have "\<bar>a * b\<bar> \<le> 1 * 1"
    unfolding abs_mult using assms by (intro mult_mono) simp_all
  then show ?thesis by (simp add: abs_le_iff)
qed


lemma calculate_angle_Inr:
  assumes "length y = length origin" "length x = length origin"
    and "linalg_norm (difference y origin) \<noteq> 0" "linalg_norm (difference x origin) \<noteq> 0"
  shows "calculate_angle origin y x =
           Inr (map2 (\<lambda>a b. Fin (arccos (a * b)))
                  (unit_vector (difference y origin)) (unit_vector (difference x origin)))"
proof -
  define yo where "yo = difference y origin"
  define xo where "xo = difference x origin"
  have len: "length yo = length origin" "length xo = length origin"
    using assms(1,2) by (simp_all add: yo_def xo_def difference_def)
  have ny: "map (\<lambda>c. true_divide c (linalg_norm yo)) yo = map Fin (unit_vector yo)"
    using assms(3) by (simp add: yo_def true_divide_def unit_vector_def)
  have nx: "map (\<lambda>c. true_divide c (linalg_norm xo)) xo = map Fin (unit_vector xo)"
    using assms(4) by (simp add: xo_def true_divide_def unit_vector_def)
  have "map np_arccos (map2 np_mul (map Fin (unit_vector yo)) (map Fin (unit_vector xo))) =
        map2 (\<lambda>a b. Fin (arccos (a * b))) (unit_vector yo) (unit_vector xo)"
  proof (rule nth_equalityI)
    show "length (map np_arccos (map2 np_mul (map Fin (unit_vector yo)) (map Fin (unit_vector xo)))) =
          length (map2 (\<lambda>a b. Fin (arccos (a * b))) (unit_vector yo) (unit_vector xo))"
      by simp
  next
    fix i
    assume "i < length (map np_arccos (map2 np_mul (map Fin (unit_vector yo)) (map Fin (unit_vector xo))))"
    then have i: "i < length yo" "i < length xo" by (simp_all add: unit_vector_def)
    have n0: "linalg_norm yo \<noteq> 0" "linalg_norm xo \<noteq> 0"
      using assms(3,4) by (simp_all add: yo_def xo_def)
    have "\<bar>yo ! i / linalg_norm yo\<bar> \<le> 1"
      by (rule unit_component[OF n0(1) nth_mem[OF i(1)]])
    moreover have "\<bar>xo ! i / linalg_norm xo\<bar> \<le> 1"
      by (rule unit_component[OF n0(2) nth_mem[OF i(2)]])
    ultimately have "- 1 \<le> yo ! i / linalg_norm yo * (xo ! i / linalg_norm xo) \<and>
               yo ! i / linalg_norm yo * (xo ! i / linalg_norm xo) \<le> 1"
      by (rule unit_product)
    then show "map np_arccos (map2 np_mul (map Fin (unit_vector yo)) (map Fin (unit_vector xo))) ! i =
               map2 (\<lambda>a b. Fin (arccos (a * b))) (unit_vector yo) (unit_vector xo) ! i"
      using i by (simp add: unit_vector_def mult.commute)
  qed
  note main = this
  have b1: "broadcast2 (\<lambda>a b. a - b) y origin = Inr yo"
    using assms(1) by (simp add: broadcast2_def yo_def difference_def)
  have b2: "broadcast2 (\<lambda>a b. a - b) x origin = Inr xo"
    using assms(2) by (simp add: broadcast2_def xo_def difference_def)
  have b3: "broadcast2 np_mul (map Fin (unit_vector yo)) (map Fin (unit_vector xo)) =
      Inr (map2 np_mul (map Fin (unit_vector yo)) (map Fin (unit_vector xo)))"
    using len by (simp add: broadcast2_def unit_vector_def)
  have "calculate_angle origin y x =
          Inr (map2 (\<lambda>a b. Fin (arccos (a * b))) (unit_vector yo) (unit_vector xo))"
    by (simp only: calculate_angle_def b1 b2 b3 ny nx main bind_err.simps Let_def)
  then show ?thesis by (simp only: yo_def xo_def)
qed


text \<open>
  C10. For an origin and two end points of the same dimension whose difference vectors are
  not zero, \<open>calculate_angle\<close> returns the arccos of each coordinate's product of the two
  unit vectors: a vector with one entry per coordinate. In dimension 2 or more this is not
  the single angle, the arccos of the dot product of the unit vectors.
\<close>

theorem calculate_angle_componentwise:
  assumes "length y = length origin" "length x = length origin"
    and "\<exists>c\<in>set (difference y origin). c \<noteq> 0" "\<exists>c\<in>set (difference x origin). c \<noteq> 0"
  shows "calculate_angle origin y x =
           Inr (map2 (\<lambda>a b. Fin (arccos (a * b)))
                  (unit_vector (difference y origin)) (unit_vector (difference x origin))) \<and>
         (\<exists>angles. calculate_angle origin y x = Inr angles \<and> length angles = length origin) \<and>
         (2 \<le> length origin \<longrightarrow>
            calculate_angle origin y x \<noteq>
              Inr [Fin (arccos (dot (unit_vector (difference y origin))
                                    (unit_vector (difference x origin))))])"
proof -
  have r: "calculate_angle origin y x =
           Inr (map2 (\<lambda>a b. Fin (arccos (a * b)))
                  (unit_vector (difference y origin)) (unit_vector (difference x origin)))"
    using assms by (intro calculate_angle_Inr linalg_norm_nonzero)
  have l: "length (map2 (\<lambda>a b. Fin (arccos (a * b)))
                  (unit_vector (difference y origin)) (unit_vector (difference x origin))) = length origin"
    using assms(1,2) by (simp add: unit_vector_def difference_def)
  have "calculate_angle origin y x \<noteq> Inr [a]" if "2 \<le> length origin" for a
  proof
    assume "calculate_angle origin y x = Inr [a]"
    with r have "length (map2 (\<lambda>a b. Fin (arccos (a * b)))
        (unit_vector (difference y origin)) (unit_vector (difference x origin))) = length [a]"
      by simp
    with l that show False by simp
  qed
  with r l show ?thesis by blast
qed

theorem calculate_angle_componentwise_witness:
  "calculate_angle [0, 0] [1, 0] [1, 0] = Inr [Fin 0, Fin (pi / 2)] \<and>
   calculate_angle [0, 0] [1, 0] [1, 0] \<noteq>
     Inr [Fin (arccos (dot (unit_vector (difference [1, 0] [0, 0]))
                           (unit_vector (difference [1, 0] [0, 0]))))]"
  using calculate_angle_componentwise[of "[1, 0]" "[0, 0]" "[1, 0]"]
  by (simp add: difference_def unit_vector_def linalg_norm_def)

subsection \<open>The orienter\<close>

lemma square_length: "square A n \<Longrightarrow> length A = n"
  by (simp add: square_def)

lemma square_nth: "square A n \<Longrightarrow> i < n \<Longrightarrow> length (A ! i) = n"
  by (simp add: square_def list_all_length)

lemma update2_row:
  "x < length A \<Longrightarrow> update2 A i j v ! x = (if x = i then (A ! i)[j := v] else A ! x)"
  by (cases "i < length A") (simp_all add: update2_def nth_list_update)

lemma length_update2: "length (update2 A i j v) = length A"
  by (simp add: update2_def)

lemma square_update2: "square A n \<Longrightarrow> square (update2 A i j v) n"
  by (simp add: square_def list_all_length length_update2 update2_row)

lemma update2_nth:
  "square A n \<Longrightarrow> x < n \<Longrightarrow> y < n \<Longrightarrow>
     update2 A i j v ! x ! y = (if x = i \<and> y = j then v else A ! x ! y)"
  by (simp add: square_def list_all_length update2_row nth_list_update)

lemma set2_square: "square A n \<Longrightarrow> i < n \<Longrightarrow> j < n \<Longrightarrow> set2 A i j v = Inr (update2 A i j v)"
  by (simp add: set2_def update2_def square_def list_all_length)

lemma get2_square: "square A n \<Longrightarrow> i < n \<Longrightarrow> j < n \<Longrightarrow> get2 A i j = Inr (A ! i ! j)"
  by (simp add: get2_def square_def list_all_length)

lemma square_orient_step: "square tree n \<Longrightarrow> square (orient_step tree r c fwd) n"
  by (simp add: orient_step_def square_update2)

lemma orient_step_nth:
  assumes "square tree n" "r \<noteq> c" "x < n" "y < n"
  shows "orient_step tree r c fwd ! x ! y =
           (if x = r \<and> y = c then (if fwd then max (tree ! r ! c) (tree ! c ! r) else 0)
            else if x = c \<and> y = r then (if fwd then 0 else max (tree ! r ! c) (tree ! c ! r))
            else tree ! x ! y)"
proof (cases fwd)
  case True
  then show ?thesis
    using assms(2-4)
    by (simp add: orient_step_def update2_nth[OF square_update2[OF assms(1)]] update2_nth[OF assms(1)])
next
  case False
  then show ?thesis
    using assms(2-4)
    by (simp add: orient_step_def update2_nth[OF square_update2[OF assms(1)]] update2_nth[OF assms(1)])
qed

lemma orient_loop_Cons:
  assumes "square tree n" "0 < i" "i < length orders" "orders ! (i - 1) < n" "orders ! i < n"
    and "i - 1 < length p" "i - 1 < length p_rev"
  shows "orient_loop tree orders p p_rev (i # is) =
           orient_loop (orient_step tree (orders ! (i - 1)) (orders ! i)
                          (np_ge (p ! (i - 1)) (p_rev ! (i - 1)))) orders p p_rev is"
proof -
  let ?r = "orders ! (i - 1)" and ?c = "orders ! i"
  have g: "get1 orders (i - 1) = Inr ?r" "get1 orders i = Inr ?c"
    "get1 p (i - 1) = Inr (p ! (i - 1))" "get1 p_rev (i - 1) = Inr (p_rev ! (i - 1))"
    using assms(2,3,6,7) by (simp_all add: get1_def)
  have t: "get2 tree ?r ?c = Inr (tree ! ?r ! ?c)" "get2 tree ?c ?r = Inr (tree ! ?c ! ?r)"
    using assms(1,4,5) by (simp_all add: get2_square)
  have s: "set2 tree ?r ?c v = Inr (update2 tree ?r ?c v)"
    "set2 tree ?c ?r v = Inr (update2 tree ?c ?r v)"
    "set2 (update2 tree ?r ?c v) ?c ?r w = Inr (update2 (update2 tree ?r ?c v) ?c ?r w)"
    "set2 (update2 tree ?c ?r v) ?r ?c w = Inr (update2 (update2 tree ?c ?r v) ?r ?c w)" for v w
    using assms(4,5)
    by (simp_all add: set2_square[OF assms(1)] set2_square[OF square_update2[OF assms(1)]])
  show ?thesis
    by (simp only: orient_loop.simps g t s bind_err.simps orient_step_def if_distrib[of "\<lambda>t. orient_loop t orders p p_rev is"])
qed


lemma touches_other:
  assumes "distinct orders" "0 < i" "i < length orders" "0 < j" "j < length orders" "i \<noteq> j"
  shows "\<not> touches orders j (orders ! (i - 1)) (orders ! i)"
    and "\<not> touches orders j (orders ! i) (orders ! (i - 1))"
  using assms by (auto simp: touches_def nth_eq_iff_index_eq)

lemma consecutive_distinct:
  "distinct orders \<Longrightarrow> 0 < i \<Longrightarrow> i < length orders \<Longrightarrow> orders ! (i - 1) \<noteq> orders ! i"
  by (simp add: nth_eq_iff_index_eq)

lemma orient_loop_result:
  assumes "distinct orders" "\<forall>v\<in>set orders. v < n"
    and "length orders - 1 \<le> length p" "length orders - 1 \<le> length p_rev"
    and "square tree n" "distinct is" "\<forall>i\<in>set is. 0 < i \<and> i < length orders"
  shows "\<exists>tree'. orient_loop tree orders p p_rev is = Inr tree' \<and> square tree' n \<and>
           (\<forall>i\<in>set is.
              tree' ! (orders ! (i - 1)) ! (orders ! i) =
                (if np_ge (p ! (i - 1)) (p_rev ! (i - 1))
                 then max (tree ! (orders ! (i - 1)) ! (orders ! i)) (tree ! (orders ! i) ! (orders ! (i - 1)))
                 else 0) \<and>
              tree' ! (orders ! i) ! (orders ! (i - 1)) =
                (if np_ge (p ! (i - 1)) (p_rev ! (i - 1)) then 0
                 else max (tree ! (orders ! (i - 1)) ! (orders ! i)) (tree ! (orders ! i) ! (orders ! (i - 1))))) \<and>
           (\<forall>x y. x < n \<and> y < n \<and> (\<forall>i\<in>set is. \<not> touches orders i x y) \<longrightarrow>
                  tree' ! x ! y = tree ! x ! y)"
  using assms(5-7)
proof (induction "is" arbitrary: tree)
  case Nil
  then show ?case by simp
next
  case (Cons i "is")
  define r where "r = orders ! (i - 1)"
  define c where "c = orders ! i"
  define fwd where "fwd = np_ge (p ! (i - 1)) (p_rev ! (i - 1))"
  define t2 where "t2 = orient_step tree r c fwd"
  from Cons.prems have i: "0 < i" "i < length orders" and notin: "i \<notin> set is"
    and dis: "distinct is" and rest: "\<forall>j\<in>set is. 0 < j \<and> j < length orders"
    by simp_all
  from i assms(2) have rc: "r < n" "c < n"
    unfolding r_def c_def by (simp_all add: nth_mem)
  have neq: "r \<noteq> c"
    unfolding r_def c_def using assms(1) i by (rule consecutive_distinct)
  from i assms(3,4) have pl: "i - 1 < length p" "i - 1 < length p_rev" by linarith+
  have sq: "square t2 n"
    unfolding t2_def using Cons.prems(1) by (rule square_orient_step)
  have step: "orient_loop tree orders p p_rev (i # is) = orient_loop t2 orders p p_rev is"
    unfolding t2_def r_def c_def fwd_def
    using Cons.prems(1) i rc[unfolded r_def c_def] pl by (rule orient_loop_Cons)
  have t2_nth: "t2 ! x ! y =
           (if x = r \<and> y = c then (if fwd then max (tree ! r ! c) (tree ! c ! r) else 0)
            else if x = c \<and> y = r then (if fwd then 0 else max (tree ! r ! c) (tree ! c ! r))
            else tree ! x ! y)" if "x < n" "y < n" for x y
    unfolding t2_def using Cons.prems(1) neq that by (rule orient_step_nth)
  from Cons.IH[OF sq dis rest] obtain tree' where
    res: "orient_loop t2 orders p p_rev is = Inr tree'" and sq': "square tree' n"
    and pairs: "\<And>j. j \<in> set is \<Longrightarrow>
              tree' ! (orders ! (j - 1)) ! (orders ! j) =
                (if np_ge (p ! (j - 1)) (p_rev ! (j - 1))
                 then max (t2 ! (orders ! (j - 1)) ! (orders ! j)) (t2 ! (orders ! j) ! (orders ! (j - 1)))
                 else 0) \<and>
              tree' ! (orders ! j) ! (orders ! (j - 1)) =
                (if np_ge (p ! (j - 1)) (p_rev ! (j - 1)) then 0
                 else max (t2 ! (orders ! (j - 1)) ! (orders ! j)) (t2 ! (orders ! j) ! (orders ! (j - 1))))"
    and other: "\<And>x y. x < n \<Longrightarrow> y < n \<Longrightarrow> (\<forall>j\<in>set is. \<not> touches orders j x y) \<Longrightarrow>
                  tree' ! x ! y = t2 ! x ! y"
    by blast
  have untouched: "\<not> touches orders j r c" "\<not> touches orders j c r" if "j \<in> set is" for j
  proof -
    from that notin have "i \<noteq> j" by blast
    moreover from that rest have "0 < j" "j < length orders" by simp_all
    ultimately show "\<not> touches orders j r c" "\<not> touches orders j c r"
      unfolding r_def c_def using touches_other[OF assms(1) i] by blast+
  qed
  have head: "tree' ! r ! c = (if fwd then max (tree ! r ! c) (tree ! c ! r) else 0)"
    "tree' ! c ! r = (if fwd then 0 else max (tree ! r ! c) (tree ! c ! r))"
    using other[of r c] other[of c r] untouched rc neq by (simp_all add: t2_nth)
  have same: "t2 ! (orders ! (j - 1)) ! (orders ! j) = tree ! (orders ! (j - 1)) ! (orders ! j)"
    "t2 ! (orders ! j) ! (orders ! (j - 1)) = tree ! (orders ! j) ! (orders ! (j - 1))"
    if "j \<in> set is" for j
  proof -
    from that rest have j: "0 < j" "j < length orders" by simp_all
    with assms(2) have jn: "orders ! (j - 1) < n" "orders ! j < n" by (simp_all add: nth_mem)
    from that notin have "j \<noteq> i" by blast
    then have "\<not> touches orders i (orders ! (j - 1)) (orders ! j)"
      using touches_other(1)[OF assms(1) j i] by blast
    then have nt: "\<not> (orders ! (j - 1) = r \<and> orders ! j = c)" "\<not> (orders ! (j - 1) = c \<and> orders ! j = r)"
      "\<not> (orders ! j = r \<and> orders ! (j - 1) = c)" "\<not> (orders ! j = c \<and> orders ! (j - 1) = r)"
      unfolding touches_def r_def c_def by blast+
    show "t2 ! (orders ! (j - 1)) ! (orders ! j) = tree ! (orders ! (j - 1)) ! (orders ! j)"
      by (simp only: t2_nth[OF jn] nt if_False)
    show "t2 ! (orders ! j) ! (orders ! (j - 1)) = tree ! (orders ! j) ! (orders ! (j - 1))"
      by (simp only: t2_nth[OF jn(2) jn(1)] nt if_False)
  qed
  have tail: "tree' ! x ! y = tree ! x ! y"
    if "x < n" "y < n" "\<forall>j\<in>set (i # is). \<not> touches orders j x y" for x y
  proof -
    from that have "tree' ! x ! y = t2 ! x ! y" by (intro other) simp_all
    also from that(3) have "\<not> touches orders i x y" by simp
    then have nt: "\<not> (x = r \<and> y = c)" "\<not> (x = c \<and> y = r)"
      unfolding touches_def r_def c_def by blast+
    have "t2 ! x ! y = tree ! x ! y"
      by (simp only: t2_nth[OF that(1,2)] nt if_False)
    finally show ?thesis .
  qed
  have L: "orient_loop tree orders p p_rev (i # is) = Inr tree'"
    by (simp only: step res)
  have P1: "\<forall>j\<in>set (i # is).
              tree' ! (orders ! (j - 1)) ! (orders ! j) =
                (if np_ge (p ! (j - 1)) (p_rev ! (j - 1))
                 then max (tree ! (orders ! (j - 1)) ! (orders ! j)) (tree ! (orders ! j) ! (orders ! (j - 1)))
                 else 0) \<and>
              tree' ! (orders ! j) ! (orders ! (j - 1)) =
                (if np_ge (p ! (j - 1)) (p_rev ! (j - 1)) then 0
                 else max (tree ! (orders ! (j - 1)) ! (orders ! j)) (tree ! (orders ! j) ! (orders ! (j - 1))))"
  proof
    fix j assume "j \<in> set (i # is)"
    then consider "j = i" | "j \<in> set is" by auto
    then show "tree' ! (orders ! (j - 1)) ! (orders ! j) =
                (if np_ge (p ! (j - 1)) (p_rev ! (j - 1))
                 then max (tree ! (orders ! (j - 1)) ! (orders ! j)) (tree ! (orders ! j) ! (orders ! (j - 1)))
                 else 0) \<and>
              tree' ! (orders ! j) ! (orders ! (j - 1)) =
                (if np_ge (p ! (j - 1)) (p_rev ! (j - 1)) then 0
                 else max (tree ! (orders ! (j - 1)) ! (orders ! j)) (tree ! (orders ! j) ! (orders ! (j - 1))))"
    proof cases
      case 1
      show ?thesis
        unfolding 1 using head unfolding r_def c_def fwd_def by (rule conjI)
    next
      case 2
      show ?thesis
        using pairs[OF 2] unfolding same[OF 2] .
    qed
  qed
  have P2: "\<forall>x y. x < n \<and> y < n \<and> (\<forall>j\<in>set (i # is). \<not> touches orders j x y) \<longrightarrow>
                  tree' ! x ! y = tree ! x ! y"
    using tail by blast
  from L sq' P1 P2 show ?case by blast
qed


lemma nonneg_nth: "nonneg A \<Longrightarrow> square A n \<Longrightarrow> x < n \<Longrightarrow> y < n \<Longrightarrow> 0 \<le> A ! x ! y"
  by (simp add: nonneg_def square_def list_all_length)

lemma touches_sym: "touches orders i x y \<longleftrightarrow> touches orders i y x"
  by (auto simp: touches_def)

lemmas orienter_defs = get1_def get2_def set2_def

text \<open>
  C3, as the claim states it: after the orienter has run over an ordering whose consecutive
  pairs cover every tree edge, each edge would have exactly one non-zero direction. The
  tree with the edges 0 - 1 and 1 - 2 stored on one side with the weights -2 and -1 is
  covered by the ordering \<open>[0, 1, 2]\<close>; the source writes \<open>max(-2, 0) = 0\<close> and
  \<open>max(0, -1) = 0\<close>, and both edges are left with no non-zero direction.
\<close>

theorem negative_weight_edges_vanish:
  "negative_mst ! 0 ! 1 \<noteq> 0 \<and> negative_mst ! 2 ! 1 \<noteq> 0 \<and>
   orient_loop negative_mst [0, 1, 2] [Fin 0, Fin 0] [Fin 0, Fin 0] [1..<length [0, 1, 2::nat]] =
     Inr [[0, 0, 0], [0, 0, 0], [0, 0, 0]]"
  by (simp add: negative_mst_def orienter_defs)

text \<open>
  C3, amended: for each \<open>i\<close> from 1 to \<open>n - 1\<close> with \<open>r = order[i-1]\<close> and
  \<open>c = order[i]\<close>: when \<open>p[i-1] \<ge> p_rev[i-1]\<close> (a tie included) the result has
  \<open>tree[r,c] = max(tree[r,c], tree[c,r])\<close> of the input and \<open>tree[c,r] = 0\<close>, and when
  \<open>p[i-1] < p_rev[i-1]\<close> the same with \<open>r\<close> and \<open>c\<close> exchanged. Consequently, over an
  ordering (a sequence of distinct indices) whose consecutive pairs cover every edge of a
  tree with non-negative weights, each edge has exactly one non-zero direction afterwards.
\<close>

theorem orient_loop_orients:
  assumes "distinct orders" "\<forall>v\<in>set orders. v < length tree" "square tree (length tree)"
    and "length orders - 1 \<le> length p" "length orders - 1 \<le> length p_rev"
  shows "\<exists>tree'. orient_loop tree orders p p_rev [1..<length orders] = Inr tree' \<and>
     (\<forall>i. 1 \<le> i \<and> i < length orders \<longrightarrow>
        (\<forall>a b. p ! (i - 1) = Fin a \<and> p_rev ! (i - 1) = Fin b \<longrightarrow>
           (b \<le> a \<longrightarrow>
              tree' ! (orders ! (i - 1)) ! (orders ! i) =
                max (tree ! (orders ! (i - 1)) ! (orders ! i)) (tree ! (orders ! i) ! (orders ! (i - 1))) \<and>
              tree' ! (orders ! i) ! (orders ! (i - 1)) = 0) \<and>
           (a < b \<longrightarrow>
              tree' ! (orders ! i) ! (orders ! (i - 1)) =
                max (tree ! (orders ! (i - 1)) ! (orders ! i)) (tree ! (orders ! i) ! (orders ! (i - 1))) \<and>
              tree' ! (orders ! (i - 1)) ! (orders ! i) = 0)) \<and>
        (np_ge (p ! (i - 1)) (p_rev ! (i - 1)) \<longrightarrow>
           tree' ! (orders ! (i - 1)) ! (orders ! i) =
             max (tree ! (orders ! (i - 1)) ! (orders ! i)) (tree ! (orders ! i) ! (orders ! (i - 1))) \<and>
           tree' ! (orders ! i) ! (orders ! (i - 1)) = 0) \<and>
        (\<not> np_ge (p ! (i - 1)) (p_rev ! (i - 1)) \<longrightarrow>
           tree' ! (orders ! i) ! (orders ! (i - 1)) =
             max (tree ! (orders ! (i - 1)) ! (orders ! i)) (tree ! (orders ! i) ! (orders ! (i - 1))) \<and>
           tree' ! (orders ! (i - 1)) ! (orders ! i) = 0)) \<and>
     (nonneg tree \<and>
      (\<forall>x y. x < length tree \<and> y < length tree \<and> tree ! x ! y \<noteq> 0 \<longrightarrow>
             (\<exists>i. 1 \<le> i \<and> i < length orders \<and> touches orders i x y)) \<longrightarrow>
      (\<forall>x y. x < length tree \<and> y < length tree \<and> (tree ! x ! y \<noteq> 0 \<or> tree ! y ! x \<noteq> 0) \<longrightarrow>
             (tree' ! x ! y \<noteq> 0) \<noteq> (tree' ! y ! x \<noteq> 0)))"
proof -
  define n where "n = length tree"
  have "\<exists>tree'. orient_loop tree orders p p_rev [1..<length orders] = Inr tree' \<and> square tree' n \<and>
           (\<forall>i\<in>set [1..<length orders].
              tree' ! (orders ! (i - 1)) ! (orders ! i) =
                (if np_ge (p ! (i - 1)) (p_rev ! (i - 1))
                 then max (tree ! (orders ! (i - 1)) ! (orders ! i)) (tree ! (orders ! i) ! (orders ! (i - 1)))
                 else 0) \<and>
              tree' ! (orders ! i) ! (orders ! (i - 1)) =
                (if np_ge (p ! (i - 1)) (p_rev ! (i - 1)) then 0
                 else max (tree ! (orders ! (i - 1)) ! (orders ! i)) (tree ! (orders ! i) ! (orders ! (i - 1))))) \<and>
           (\<forall>x y. x < n \<and> y < n \<and> (\<forall>i\<in>set [1..<length orders]. \<not> touches orders i x y) \<longrightarrow>
                  tree' ! x ! y = tree ! x ! y)"
    using assms unfolding n_def[symmetric] by (intro orient_loop_result) simp_all
  then obtain tree' where
    L: "orient_loop tree orders p p_rev [1..<length orders] = Inr tree'"
    and pairs: "\<And>i. 1 \<le> i \<Longrightarrow> i < length orders \<Longrightarrow>
              tree' ! (orders ! (i - 1)) ! (orders ! i) =
                (if np_ge (p ! (i - 1)) (p_rev ! (i - 1))
                 then max (tree ! (orders ! (i - 1)) ! (orders ! i)) (tree ! (orders ! i) ! (orders ! (i - 1)))
                 else 0) \<and>
              tree' ! (orders ! i) ! (orders ! (i - 1)) =
                (if np_ge (p ! (i - 1)) (p_rev ! (i - 1)) then 0
                 else max (tree ! (orders ! (i - 1)) ! (orders ! i)) (tree ! (orders ! i) ! (orders ! (i - 1))))"
    by auto
  have A: "\<forall>i. 1 \<le> i \<and> i < length orders \<longrightarrow>
        (\<forall>a b. p ! (i - 1) = Fin a \<and> p_rev ! (i - 1) = Fin b \<longrightarrow>
           (b \<le> a \<longrightarrow>
              tree' ! (orders ! (i - 1)) ! (orders ! i) =
                max (tree ! (orders ! (i - 1)) ! (orders ! i)) (tree ! (orders ! i) ! (orders ! (i - 1))) \<and>
              tree' ! (orders ! i) ! (orders ! (i - 1)) = 0) \<and>
           (a < b \<longrightarrow>
              tree' ! (orders ! i) ! (orders ! (i - 1)) =
                max (tree ! (orders ! (i - 1)) ! (orders ! i)) (tree ! (orders ! i) ! (orders ! (i - 1))) \<and>
              tree' ! (orders ! (i - 1)) ! (orders ! i) = 0)) \<and>
        (np_ge (p ! (i - 1)) (p_rev ! (i - 1)) \<longrightarrow>
           tree' ! (orders ! (i - 1)) ! (orders ! i) =
             max (tree ! (orders ! (i - 1)) ! (orders ! i)) (tree ! (orders ! i) ! (orders ! (i - 1))) \<and>
           tree' ! (orders ! i) ! (orders ! (i - 1)) = 0) \<and>
        (\<not> np_ge (p ! (i - 1)) (p_rev ! (i - 1)) \<longrightarrow>
           tree' ! (orders ! i) ! (orders ! (i - 1)) =
             max (tree ! (orders ! (i - 1)) ! (orders ! i)) (tree ! (orders ! i) ! (orders ! (i - 1))) \<and>
           tree' ! (orders ! (i - 1)) ! (orders ! i) = 0)"
  proof (intro allI impI)
    fix i assume i: "1 \<le> i \<and> i < length orders"
    define m where
      "m = max (tree ! (orders ! (i - 1)) ! (orders ! i)) (tree ! (orders ! i) ! (orders ! (i - 1)))"
    have pr: "tree' ! (orders ! (i - 1)) ! (orders ! i) =
                (if np_ge (p ! (i - 1)) (p_rev ! (i - 1)) then m else 0)"
      "tree' ! (orders ! i) ! (orders ! (i - 1)) =
                (if np_ge (p ! (i - 1)) (p_rev ! (i - 1)) then 0 else m)"
      unfolding m_def using pairs[of i] i by blast+
    have fin: "np_ge (p ! (i - 1)) (p_rev ! (i - 1)) = (b \<le> a)"
      if "p ! (i - 1) = Fin a \<and> p_rev ! (i - 1) = Fin b" for a b
      using that by simp
    show "(\<forall>a b. p ! (i - 1) = Fin a \<and> p_rev ! (i - 1) = Fin b \<longrightarrow>
           (b \<le> a \<longrightarrow>
              tree' ! (orders ! (i - 1)) ! (orders ! i) =
                max (tree ! (orders ! (i - 1)) ! (orders ! i)) (tree ! (orders ! i) ! (orders ! (i - 1))) \<and>
              tree' ! (orders ! i) ! (orders ! (i - 1)) = 0) \<and>
           (a < b \<longrightarrow>
              tree' ! (orders ! i) ! (orders ! (i - 1)) =
                max (tree ! (orders ! (i - 1)) ! (orders ! i)) (tree ! (orders ! i) ! (orders ! (i - 1))) \<and>
              tree' ! (orders ! (i - 1)) ! (orders ! i) = 0)) \<and>
        (np_ge (p ! (i - 1)) (p_rev ! (i - 1)) \<longrightarrow>
           tree' ! (orders ! (i - 1)) ! (orders ! i) =
             max (tree ! (orders ! (i - 1)) ! (orders ! i)) (tree ! (orders ! i) ! (orders ! (i - 1))) \<and>
           tree' ! (orders ! i) ! (orders ! (i - 1)) = 0) \<and>
        (\<not> np_ge (p ! (i - 1)) (p_rev ! (i - 1)) \<longrightarrow>
           tree' ! (orders ! i) ! (orders ! (i - 1)) =
             max (tree ! (orders ! (i - 1)) ! (orders ! i)) (tree ! (orders ! i) ! (orders ! (i - 1))) \<and>
           tree' ! (orders ! (i - 1)) ! (orders ! i) = 0)"
      unfolding m_def[symmetric] pr using fin by (auto simp: not_le)
  qed
  have B: "(tree' ! x ! y \<noteq> 0) \<noteq> (tree' ! y ! x \<noteq> 0)"
    if nn: "nonneg tree"
      and cover: "\<forall>x y. x < length tree \<and> y < length tree \<and> tree ! x ! y \<noteq> 0 \<longrightarrow>
             (\<exists>i. 1 \<le> i \<and> i < length orders \<and> touches orders i x y)"
      and xy: "x < length tree" "y < length tree" "tree ! x ! y \<noteq> 0 \<or> tree ! y ! x \<noteq> 0"
    for x y
  proof -
    from cover xy obtain i where i: "1 \<le> i" "i < length orders" and t: "touches orders i x y"
      using touches_sym[of orders _ x y] by blast
    define r where "r = orders ! (i - 1)"
    define c where "c = orders ! i"
    from i assms(2) have rc: "r < length tree" "c < length tree"
      unfolding r_def c_def by (simp_all add: nth_mem)
    have ge: "0 \<le> tree ! r ! c" "0 \<le> tree ! c ! r"
      using nn assms(3) rc by (simp_all add: nonneg_nth)
    from t xy(3) have "tree ! r ! c \<noteq> 0 \<or> tree ! c ! r \<noteq> 0"
      unfolding touches_def r_def c_def by blast
    with ge have m: "max (tree ! r ! c) (tree ! c ! r) \<noteq> 0" by (auto simp: max_def)
    from pairs[OF i] m have "(tree' ! r ! c \<noteq> 0) \<noteq> (tree' ! c ! r \<noteq> 0)"
      unfolding r_def c_def by (cases "np_ge (p ! (i - 1)) (p_rev ! (i - 1))") simp_all
    with t show ?thesis
      unfolding touches_def r_def c_def by blast
  qed
  from L A B show ?thesis by blast
qed

theorem orient_loop_orients_witness:
  "distinct [0, 1, 2::nat] \<and> square example_mst 3 \<and> nonneg example_mst \<and>
   (\<exists>tree'. orient_loop example_mst [0, 1, 2] [Fin 1, Fin 0] [Fin 0, Fin 1] [1..<3] = Inr tree' \<and>
      tree' ! 0 ! 1 = 2 \<and> tree' ! 1 ! 0 = 0 \<and> tree' ! 2 ! 1 = 1 \<and> tree' ! 1 ! 2 = 0 \<and>
      ((tree' ! 2 ! 1 \<noteq> 0) \<noteq> (tree' ! 1 ! 2 \<noteq> 0))) \<and>
   (\<exists>tree'. orient_loop example_mst [0, 1, 2] [Fin 0, Fin 0] [Fin 0, Fin 0] [1..<3] = Inr tree' \<and>
      tree' ! 0 ! 1 = 2 \<and> tree' ! 1 ! 0 = 0 \<and> tree' ! 1 ! 2 = 1 \<and> tree' ! 2 ! 1 = 0)"
proof -
  have h: "distinct [0, 1, 2::nat]" "\<forall>v\<in>set [0, 1, 2::nat]. v < length example_mst"
    "square example_mst (length example_mst)"
    "length [0, 1, 2::nat] - 1 \<le> length [Fin 1, Fin 0]"
    "length [0, 1, 2::nat] - 1 \<le> length [Fin 0, Fin 1]"
    "length [0, 1, 2::nat] - 1 \<le> length [Fin 0, Fin 0]"
    by (simp_all add: example_mst_def square_def)
  have sq: "square example_mst 3" and nn: "nonneg example_mst"
    by (simp_all add: example_mst_def square_def nonneg_def)
  have len3: "length [0, 1, 2::nat] = 3" by simp
  have cover: "\<forall>x y. x < length example_mst \<and> y < length example_mst \<and> example_mst ! x ! y \<noteq> 0 \<longrightarrow>
             (\<exists>i. 1 \<le> i \<and> i < length [0, 1, 2::nat] \<and> touches [0, 1, 2] i x y)"
  proof (intro allI impI)
    fix x y :: nat
    assume a: "x < length example_mst \<and> y < length example_mst \<and> example_mst ! x ! y \<noteq> 0"
    then have "x < 3" "y < 3" by (simp_all add: example_mst_def)
    then consider "x = 0" | "x = 1" | "x = 2" by linarith
    then have "touches [0, 1, 2] 1 x y \<or> touches [0, 1, 2] 2 x y"
    proof cases
      case 1
      with a \<open>y < 3\<close> show ?thesis
        by (cases "y = 0"; cases "y = 1"; cases "y = 2") (simp_all add: example_mst_def touches_def)
    next
      case 2
      with a \<open>y < 3\<close> show ?thesis
        by (cases "y = 0"; cases "y = 1"; cases "y = 2") (simp_all add: example_mst_def touches_def)
    next
      case 3
      with a \<open>y < 3\<close> show ?thesis
        by (cases "y = 0"; cases "y = 1"; cases "y = 2") (simp_all add: example_mst_def touches_def)
    qed
    then show "\<exists>i. 1 \<le> i \<and> i < length [0, 1, 2::nat] \<and> touches [0, 1, 2] i x y"
    proof
      assume "touches [0, 1, 2] 1 x y"
      then have "1 \<le> (1::nat) \<and> 1 < length [0, 1, 2::nat] \<and> touches [0, 1, 2] 1 x y"
        by simp
      then show ?thesis by blast
    next
      assume "touches [0, 1, 2] 2 x y"
      then have "1 \<le> (2::nat) \<and> 2 < length [0, 1, 2::nat] \<and> touches [0, 1, 2] 2 x y"
        by simp
      then show ?thesis by blast
    qed
  qed
  from orient_loop_orients[of "[0, 1, 2]" example_mst "[Fin 1, Fin 0]" "[Fin 0, Fin 1]",
      OF h(1-5)]
  obtain t1 where
    L1: "orient_loop example_mst [0, 1, 2] [Fin 1, Fin 0] [Fin 0, Fin 1] [1..<length [0, 1, 2::nat]] = Inr t1"
    and A1: "\<And>i a b. 1 \<le> i \<Longrightarrow> i < length [0, 1, 2::nat] \<Longrightarrow>
        [Fin 1, Fin 0] ! (i - 1) = Fin a \<Longrightarrow> [Fin 0, Fin 1] ! (i - 1) = Fin b \<Longrightarrow>
           (b \<le> a \<longrightarrow>
              t1 ! ([0, 1, 2] ! (i - 1)) ! ([0, 1, 2] ! i) =
                max (example_mst ! ([0, 1, 2] ! (i - 1)) ! ([0, 1, 2] ! i))
                    (example_mst ! ([0, 1, 2] ! i) ! ([0, 1, 2] ! (i - 1))) \<and>
              t1 ! ([0, 1, 2] ! i) ! ([0, 1, 2] ! (i - 1)) = 0) \<and>
           (a < b \<longrightarrow>
              t1 ! ([0, 1, 2] ! i) ! ([0, 1, 2] ! (i - 1)) =
                max (example_mst ! ([0, 1, 2] ! (i - 1)) ! ([0, 1, 2] ! i))
                    (example_mst ! ([0, 1, 2] ! i) ! ([0, 1, 2] ! (i - 1))) \<and>
              t1 ! ([0, 1, 2] ! (i - 1)) ! ([0, 1, 2] ! i) = 0)"
    and B1: "nonneg example_mst \<and>
      (\<forall>x y. x < length example_mst \<and> y < length example_mst \<and> example_mst ! x ! y \<noteq> 0 \<longrightarrow>
             (\<exists>i. 1 \<le> i \<and> i < length [0, 1, 2::nat] \<and> touches [0, 1, 2] i x y)) \<longrightarrow>
      (\<forall>x y. x < length example_mst \<and> y < length example_mst \<and>
             (example_mst ! x ! y \<noteq> 0 \<or> example_mst ! y ! x \<noteq> 0) \<longrightarrow>
             (t1 ! x ! y \<noteq> 0) \<noteq> (t1 ! y ! x \<noteq> 0))"
    by blast
  from A1[of 1 1 0] have a1: "t1 ! 0 ! 1 = 2 \<and> t1 ! 1 ! 0 = 0"
    by (simp add: example_mst_def)
  from A1[of 2 0 1] have a2: "t1 ! 2 ! 1 = 1 \<and> t1 ! 1 ! 2 = 0"
    by (simp add: example_mst_def)
  from B1 nn cover have "\<forall>x y. x < length example_mst \<and> y < length example_mst \<and>
             (example_mst ! x ! y \<noteq> 0 \<or> example_mst ! y ! x \<noteq> 0) \<longrightarrow>
             (t1 ! x ! y \<noteq> 0) \<noteq> (t1 ! y ! x \<noteq> 0)"
    by blast
  from this[rule_format, of 2 1] have b: "(t1 ! 2 ! 1 \<noteq> 0) \<noteq> (t1 ! 1 ! 2 \<noteq> 0)"
    by (simp add: example_mst_def)
  from L1 have L1': "orient_loop example_mst [0, 1, 2] [Fin 1, Fin 0] [Fin 0, Fin 1] [1..<3] = Inr t1"
    unfolding len3 .
  from orient_loop_orients[of "[0, 1, 2]" example_mst "[Fin 0, Fin 0]" "[Fin 0, Fin 0]",
      OF h(1-3) h(6) h(6)]
  obtain t2 where
    L2: "orient_loop example_mst [0, 1, 2] [Fin 0, Fin 0] [Fin 0, Fin 0] [1..<length [0, 1, 2::nat]] = Inr t2"
    and A2: "\<And>i a b. 1 \<le> i \<Longrightarrow> i < length [0, 1, 2::nat] \<Longrightarrow>
        [Fin 0, Fin 0] ! (i - 1) = Fin a \<Longrightarrow> [Fin 0, Fin 0] ! (i - 1) = Fin b \<Longrightarrow>
           (b \<le> a \<longrightarrow>
              t2 ! ([0, 1, 2] ! (i - 1)) ! ([0, 1, 2] ! i) =
                max (example_mst ! ([0, 1, 2] ! (i - 1)) ! ([0, 1, 2] ! i))
                    (example_mst ! ([0, 1, 2] ! i) ! ([0, 1, 2] ! (i - 1))) \<and>
              t2 ! ([0, 1, 2] ! i) ! ([0, 1, 2] ! (i - 1)) = 0)"
    by blast
  from A2[of 1 0 0] have c1: "t2 ! 0 ! 1 = 2 \<and> t2 ! 1 ! 0 = 0"
    by (simp add: example_mst_def)
  from A2[of 2 0 0] have c2: "t2 ! 1 ! 2 = 1 \<and> t2 ! 2 ! 1 = 0"
    by (simp add: example_mst_def)
  from L2 have L2': "orient_loop example_mst [0, 1, 2] [Fin 0, Fin 0] [Fin 0, Fin 0] [1..<3] = Inr t2"
    unfolding len3 .
  from h(1) sq nn L1' a1 a2 b L2' c1 c2 show ?thesis by blast
qed

subsection \<open>The branch voter\<close>

lemma process_branch_raises:
  "process_branch dG path = (if path = [] then Inl IndexError else Inl TypeError)"
proof (cases path)
  case Nil
  then show ?thesis
    by (simp add: process_branch_def count_votes_def report_branch_def neg_direct_of_def)
next
  case (Cons u rest)
  then have "0 < length path" by simp
  then have "[0..<length path] = 0 # [Suc 0..<length path]"
    by (rule upt_conv_Cons)
  then have "count_votes path = Inl TypeError"
    by (simp only: count_votes_def vote_loop.simps)
  with Cons show ?thesis
    by (simp add: process_branch_def)
qed

text \<open>
  C7. For every branch the tallies should satisfy \<open>pos_direct + neg_direct = len(path)\<close>
  and the branch should be oriented by the majority of the votes, a tie going forward. In
  the source no tally is reached: for the branch \<open>[0, 1]\<close> the first vote position raises
  a TypeError (\<open>u = path(bp)\<close> calls a list), so the voter raises and orients nothing.
  Lines 265 to 271 taken alone, with one forward vote of two (a tie), do not orient the
  branch forward either: the test is \<open>pos_direct > neg_direct\<close>, and the reversed branch
  raises a TypeError at \<open>path(bp + 1)\<close>.
\<close>

theorem voter_raises_on_branch:
  "count_votes [0, 1] = Inl TypeError \<and>
   branch_direction_voter 2 [[0, 1]] = Inl TypeError \<and>
   orient_branch [[0, 0], [0, 0]] [0, 1] 1 (neg_direct_of [0, 1] 1) = Inl TypeError"
  by (simp add: branch_direction_voter_def process_branch_def count_votes_def orient_branch_def
      neg_direct_of_def)

end
